theory Spec2Isabelle
  imports Main "HOL-Library.Char_ord" "HOL-Library.List_Lexorder"
begin

section \<open>Request context\<close>

text \<open>
  A Go \<^verbatim>\<open>error\<close> is modelled by its message; a nil error is \<open>None\<close>.
\<close>

type_synonym error = string

text \<open>
  The parts of \<^verbatim>\<open>fasthttp.RequestCtx\<close> (external library) that the router reads or
  writes: request method and URI (debug log), response status code, response headers
  and body.
\<close>

record fasthttp_ctx =
  reqMethod :: string
  reqURI :: string
  statusCode :: int
  respHeader :: "(string \<times> string) list"
  respBody :: string

text \<open>
  \<^verbatim>\<open>RequestCtx\<close> wraps the fasthttp context and carries the two flags the router
  reads: \<^verbatim>\<open>next\<close> (lines 169, 173) and \<^verbatim>\<open>skipView\<close> (line 144). The type declaration
  itself is outside the router source; the fields are the ones the router uses.
\<close>

record RequestCtx =
  "next" :: bool
  skipView :: bool
  fctx :: fasthttp_ctx

text \<open>
  A \<^verbatim>\<open>View\<close> and a \<^verbatim>\<open>Middleware\<close> are both \<^verbatim>\<open>func(*RequestCtx) error\<close>: the function
  mutates the context it is given and returns an error or nil.
\<close>

type_synonym View = "RequestCtx \<Rightarrow> error option \<times> RequestCtx"

text \<open>
  Modelled from the spec: \<^verbatim>\<open>RequestCtx.Next\<close> is not part of the router source. It is
  the call by which a chain element passes control on (the flag the dispatch loop
  tests at line 169 and clears at line 173); it returns nil.
\<close>

definition Next :: "RequestCtx \<Rightarrow> error option \<times> RequestCtx" where
  "Next c = (None, c\<lparr>next := True\<rparr>)"

definition StatusOK :: int where
  "StatusOK = 200"

definition StatusInternalServerError :: int where
  "StatusInternalServerError = 500"

definition MethodOptions :: string where
  "MethodOptions = ''OPTIONS''"

definition HeaderAllow :: string where
  "HeaderAllow = ''Allow''"

text \<open>\<^verbatim>\<open>Response.Header.Set\<close>: replaces the value of an existing key, else adds the key.\<close>

fun header_set :: "string \<Rightarrow> string \<Rightarrow> (string \<times> string) list \<Rightarrow> (string \<times> string) list" where
  "header_set k v [] = [(k, v)]"
| "header_set k v ((k', v') # hs) =
     (if k' = k then (k, v) # hs else (k', v') # header_set k v hs)"

text \<open>\<^verbatim>\<open>ctx.Error(msg, statusCode)\<close> of fasthttp: resets the response, sets status and body.\<close>

definition defaultErrorView :: "RequestCtx \<Rightarrow> error \<Rightarrow> int \<Rightarrow> RequestCtx" where
  "defaultErrorView c err sc =
     c\<lparr>fctx := (fctx c)\<lparr>statusCode := sc, respHeader := [], respBody := err\<rparr>\<rparr>"

definition emptyView :: View where
  "emptyView c = (None, c)"

section \<open>Middlewares\<close>

text \<open>
  A value of Go type \<^verbatim>\<open>Middleware\<close> is one of
  \<^item> a function registered by the application: \<open>Fn p f\<close>, with code pointer \<open>p\<close>
    (Go functions have no equality; the skip filter tells them apart by pointer) and
    behaviour \<open>f\<close>;
  \<^item> the closure \<^verbatim>\<open>debugMiddleware\<close> of lines 117-121;
  \<^item> the closure of lines 143-151 around the view \<open>fn\<close>.
\<close>

datatype Middleware =
    Fn (fnptr: nat) (body: View)
  | DebugMiddleware
  | ViewStep View

record Middlewares =
  Before :: "Middleware list"
  After :: "Middleware list"
  Skip :: "Middleware list"

text \<open>
  Modelled from the spec: \<^verbatim>\<open>appendMiddlewares\<close> (and the equality test it uses) is not
  part of the router source. The spec: the chain builder concatenates the lists,
  ``filtering out any middleware explicitly marked skip''. Two middlewares are the same
  when they are the same function.
\<close>

fun isEqual :: "Middleware \<Rightarrow> Middleware \<Rightarrow> bool" where
  "isEqual (Fn p _) m = (case m of Fn q _ \<Rightarrow> p = q | _ \<Rightarrow> False)"
| "isEqual DebugMiddleware m = (case m of DebugMiddleware \<Rightarrow> True | _ \<Rightarrow> False)"
| "isEqual (ViewStep _) m = (case m of ViewStep _ \<Rightarrow> True | _ \<Rightarrow> False)"

definition middlewaresInclude :: "Middleware list \<Rightarrow> Middleware \<Rightarrow> bool" where
  "middlewaresInclude ms fn = list_ex (\<lambda>m. isEqual m fn) ms"

definition appendMiddlewares ::
  "Middleware list \<Rightarrow> Middleware list \<Rightarrow> Middleware list \<Rightarrow> Middleware list" where
  "appendMiddlewares dst src skip = dst @ filter (\<lambda>fn. \<not> middlewaresInclude skip fn) src"

section \<open>Router\<close>

text \<open>
  The router's configuration. Its \<^verbatim>\<open>logger\<close> is an output channel only: what the
  router prints to it is recorded as a \<open>Printf\<close> event of the request's trace.
\<close>

record routerConfig =
  errorView :: "RequestCtx \<Rightarrow> error \<Rightarrow> int \<Rightarrow> RequestCtx"
  debug :: bool

text \<open>
  The \<^verbatim>\<open>Router\<close> struct. \<open>parent\<close> is the group's parent (nil for the server's router).
  The field \<^verbatim>\<open>router\<close>, a pointer to the external path-matching engine shared by all
  groups, is kept outside the struct as the \<open>fastrouter\<close> state that the registering
  functions take and return.
\<close>

datatype Router = Router
  (parent: "Router option")
  (prefix: string)
  (middlewares: Middlewares)
  (routerMutable: bool)
  (handleOPTIONS: bool)
  (customOPTIONS: "string list")
  (cfg: routerConfig)

definition newRouter :: "routerConfig \<Rightarrow> Router" where
  "newRouter c =
     Router None [] \<lparr>Before = [], After = [], Skip = []\<rparr> False True [] c"

definition NewGroupPath :: "Router \<Rightarrow> string \<Rightarrow> Router" where
  "NewGroupPath r path =
     Router (Some r) path \<lparr>Before = [], After = [], Skip = []\<rparr>
       (routerMutable r) (handleOPTIONS r) [] (cfg r)"

fun buildMiddlewares :: "Router \<Rightarrow> Middlewares \<Rightarrow> Middlewares" where
  "buildMiddlewares (Router par pre ms mut hopt copt c) m =
     (let m2 = \<lparr>Before = Before ms @ Before m,
                After = After m @ After ms,
                Skip = Skip m @ Skip ms\<rparr>
      in case par of
           Some p \<Rightarrow> buildMiddlewares p m2
         | None \<Rightarrow>
             (let m3 = (if debug c then m2\<lparr>Before := DebugMiddleware # Before m2\<rparr> else m2)
              in m3\<lparr>Before := appendMiddlewares [] (Before m3) (Skip m3),
                    After := appendMiddlewares [] (After m3) (Skip m3)\<rparr>))"

fun getGroupFullPath :: "Router \<Rightarrow> string \<Rightarrow> string" where
  "getGroupFullPath (Router par pre ms mut hopt copt c) path =
     (case par of
        Some p \<Rightarrow> getGroupFullPath p (pre @ path)
      | None \<Rightarrow> path)"

section \<open>Dispatch\<close>

text \<open>
  What a request handler does besides changing the context is recorded as a trace:
  taking a context wrapper from the pool (the wrapper handed out) and putting it back
  (the wrapper as it goes back), every call of a chain element (its index \<open>i\<close> in the
  chain, what it returned, and whether the \<open>next\<close> flag was set when it returned),
  every line printed to the logger, and every call of the error view with the arguments
  it was given.
\<close>

datatype event =
    Acquire RequestCtx
  | Release RequestCtx
  | Ran nat "error option" bool
  | Printf string
  | ErrorView RequestCtx error int

text \<open>
  Modelled from the spec: \<^verbatim>\<open>AcquireRequestCtx\<close> and \<^verbatim>\<open>ReleaseRequestCtx\<close> are not part
  of the router source. The spec: ``a reusable wrapper object recycled across requests''.
  A wrapper comes out of the pool with both flags cleared and bound to the request;
  releasing clears the flags again.
\<close>

definition AcquireRequestCtx :: "fasthttp_ctx \<Rightarrow> RequestCtx" where
  "AcquireRequestCtx c = \<lparr>next = False, skipView = False, fctx = c\<rparr>"

definition ReleaseRequestCtx :: "RequestCtx \<Rightarrow> RequestCtx" where
  "ReleaseRequestCtx c = c\<lparr>next := False, skipView := False\<rparr>"

text \<open>Calling a chain element: the result, the context after the call, what was logged.\<close>

fun call :: "Middleware \<Rightarrow> RequestCtx \<Rightarrow> (error option \<times> RequestCtx) \<times> event list" where
  "call (Fn p f) c = (f c, [])"
| "call DebugMiddleware c =
     (Next c, [Printf (reqMethod (fctx c) @ '' '' @ reqURI (fctx c))])"
| "call (ViewStep fn) c =
     ((if \<not> skipView c then
         (case fn c of
            (Some err, c') \<Rightarrow> (Some err, c')
          | (None, c') \<Rightarrow> Next c')
       else Next c), [])"

text \<open>
  The loop of lines 158-174, from index \<open>i\<close> on. It returns the context and the trace.
\<close>

function loop ::
  "routerConfig \<Rightarrow> Middleware list \<Rightarrow> nat \<Rightarrow> RequestCtx \<Rightarrow> RequestCtx \<times> event list" where
  "loop cf chain i actx =
     (if i < length chain then
        (case call (chain ! i) actx of
           ((Some err, a1), logged) \<Rightarrow>
             (let sc = statusCode (fctx a1);
                  sc' = (if sc = StatusOK then StatusInternalServerError else sc)
              in (errorView cf a1 err sc',
                  logged @ [Ran i (Some err) (next a1),
                            Printf (''error view: '' @ err),
                            ErrorView a1 err sc']))
         | ((None, a1), logged) \<Rightarrow>
             (if \<not> next a1 then (a1, logged @ [Ran i None False])
              else (case loop cf chain (i + 1) (a1\<lparr>next := False\<rparr>) of
                      (a2, tr) \<Rightarrow> (a2, logged @ Ran i None True # tr))))
      else (actx, []))"
  by pat_completeness auto
termination
  by (relation "measure (\<lambda>(cf, chain, i, actx). length chain - i)") auto

text \<open>
  A built request handler: the closure of lines 155-177 with the chain it captured, or
  such a handler wrapped by fasthttp's \<^verbatim>\<open>TimeoutWithCodeHandler\<close> (external).
\<close>

datatype RequestHandler =
    ChainHandler routerConfig "Middleware list"
  | TimeoutWithCodeHandler RequestHandler nat string int

definition handler_chain :: "Router \<Rightarrow> View \<Rightarrow> Middlewares \<Rightarrow> Middleware list" where
  "handler_chain r fn middle =
     (let middle' = buildMiddlewares r middle;
          chain = Before middle' @ [ViewStep fn]
      in chain @ After middle')"

definition handler :: "Router \<Rightarrow> View \<Rightarrow> Middlewares \<Rightarrow> RequestHandler" where
  "handler r fn middle = ChainHandler (cfg r) (handler_chain r fn middle)"

text \<open>Serving one request with the closure of lines 155-177.\<close>

definition serve ::
  "routerConfig \<Rightarrow> Middleware list \<Rightarrow> fasthttp_ctx \<Rightarrow> fasthttp_ctx \<times> event list" where
  "serve cf chain c =
     (let actx = AcquireRequestCtx c
      in case loop cf chain 0 actx of
           (a, tr) \<Rightarrow>
             (fctx (ReleaseRequestCtx a), Acquire actx # tr @ [Release (ReleaseRequestCtx a)]))"

section \<open>Registering middlewares\<close>

text \<open>
  The method \<^verbatim>\<open>Router.Middlewares\<close> (lines 236-240), which replaces the router's lists;
  the record type already has the name.
\<close>

fun Middlewares_set :: "Router \<Rightarrow> Middlewares \<Rightarrow> Router" where
  "Middlewares_set (Router par pre ms mut hopt copt c) m = Router par pre m mut hopt copt c"

definition UseBefore :: "Router \<Rightarrow> Middleware list \<Rightarrow> Router" where
  "UseBefore r fns =
     Middlewares_set r ((middlewares r)\<lparr>Before := Before (middlewares r) @ fns\<rparr>)"

definition UseAfter :: "Router \<Rightarrow> Middleware list \<Rightarrow> Router" where
  "UseAfter r fns =
     Middlewares_set r ((middlewares r)\<lparr>After := After (middlewares r) @ fns\<rparr>)"

definition SkipMiddlewares :: "Router \<Rightarrow> Middleware list \<Rightarrow> Router" where
  "SkipMiddlewares r fns =
     Middlewares_set r ((middlewares r)\<lparr>Skip := Skip (middlewares r) @ fns\<rparr>)"

text \<open>A sequence of registration calls on one router, applied in order.\<close>

datatype registration =
    CallUseBefore "Middleware list"
  | CallUseAfter "Middleware list"
  | CallSkipMiddlewares "Middleware list"

fun register :: "Router \<Rightarrow> registration \<Rightarrow> Router" where
  "register r (CallUseBefore fns) = UseBefore r fns"
| "register r (CallUseAfter fns) = UseAfter r fns"
| "register r (CallSkipMiddlewares fns) = SkipMiddlewares r fns"

fun before_args :: "registration \<Rightarrow> Middleware list" where
  "before_args (CallUseBefore fns) = fns"
| "before_args _ = []"

fun after_args :: "registration \<Rightarrow> Middleware list" where
  "after_args (CallUseAfter fns) = fns"
| "after_args _ = []"

fun skip_args :: "registration \<Rightarrow> Middleware list" where
  "skip_args (CallSkipMiddlewares fns) = fns"
| "skip_args _ = []"

section \<open>Registering paths\<close>

text \<open>
  The external path-matching engine (\<^verbatim>\<open>fasthttp/router\<close>), as far as the router uses it:
  \<^verbatim>\<open>Handle\<close> stores a handler under a method and a path and adds the path to the list
  of the method's paths, \<^verbatim>\<open>List\<close> returns these lists, \<^verbatim>\<open>Mutable\<close> sets a flag.
  \<^verbatim>\<open>Handle\<close> panics on an empty method, on a path that does not begin with a slash,
  and on a method and path that already have a handler unless the tree is mutable.
  Paths are taken as plain strings: what the engine's tree makes of patterns in a path
  is outside this development.
\<close>

text \<open>
  A panic of \<^verbatim>\<open>Router.Path\<close>: the router's own (line 422, with its message), or one of
  the engine's.
\<close>

datatype panic =
    MethodCase string
  | EmptyMethod
  | PathWithoutSlash string
  | DuplicateRoute string string

record fastrouter =
  handlers :: "((string \<times> string) \<times> RequestHandler) list"
  registeredPaths :: "(string \<times> string list) list"
  treeMutable :: bool

fun addPath :: "string \<Rightarrow> string \<Rightarrow> (string \<times> string list) list \<Rightarrow> (string \<times> string list) list" where
  "addPath m p [] = [(m, [p])]"
| "addPath m p ((m', ps) # rest) =
     (if m' = m then (m', ps @ [p]) # rest else (m', ps) # addPath m p rest)"

definition begins_with_slash :: "string \<Rightarrow> bool" where
  "begins_with_slash p = (case p of [] \<Rightarrow> False | c # _ \<Rightarrow> c = CHR ''/'')"

definition Handle ::
  "fastrouter \<Rightarrow> string \<Rightarrow> string \<Rightarrow> RequestHandler \<Rightarrow> panic + fastrouter" where
  "Handle fr m p h =
     (if length m = 0 then Inl EmptyMethod
      else if \<not> begins_with_slash p then Inl (PathWithoutSlash p)
      else if \<not> treeMutable fr \<and> map_of (handlers fr) (m, p) \<noteq> None
        then Inl (DuplicateRoute m p)
      else Inr (fr\<lparr>handlers := ((m, p), h) # handlers fr,
                   registeredPaths := addPath m p (registeredPaths fr)\<rparr>))"

definition ListPaths :: "fastrouter \<Rightarrow> (string \<times> string list) list" where
  "ListPaths fr = registeredPaths fr"

text \<open>\<^verbatim>\<open>gstrings.Include\<close> and \<^verbatim>\<open>gstrings.UniqueAppend\<close> (external), for one string.\<close>

definition Include :: "string list \<Rightarrow> string \<Rightarrow> bool" where
  "Include vs v = (v \<in> set vs)"

definition UniqueAppend :: "string list \<Rightarrow> string \<Rightarrow> string list" where
  "UniqueAppend vs v = (if Include vs v then vs else vs @ [v])"

text \<open>\<^verbatim>\<open>strings.Join\<close> of the Go standard library.\<close>

fun Join :: "string list \<Rightarrow> string \<Rightarrow> string" where
  "Join [] sep = []"
| "Join [x] sep = x"
| "Join (x # y # ys) sep = x @ sep @ Join (y # ys) sep"

text \<open>
  \<^verbatim>\<open>strings.ToUpper\<close> of the Go standard library. On a string of ASCII bytes the
  letters a to z are mapped to A to Z and every other byte stays. On any other string Go
  maps the string by its Unicode tables; this mapping is the parameter \<open>uni\<close>.
\<close>

definition toUpperChar :: "char \<Rightarrow> char" where
  "toUpperChar c =
     (case map_of (zip ''abcdefghijklmnopqrstuvwxyz'' ''ABCDEFGHIJKLMNOPQRSTUVWXYZ'') c of
        Some u \<Rightarrow> u
      | None \<Rightarrow> c)"

definition isASCII :: "string \<Rightarrow> bool" where
  "isASCII s = list_all (\<lambda>c. (of_char c :: nat) < 128) s"

definition ToUpper :: "(string \<Rightarrow> string) \<Rightarrow> string \<Rightarrow> string" where
  "ToUpper uni s = (if isASCII s then map toUpperChar s else uni s)"

text \<open>
  Lines 57-72: the value of the Allow header. \<open>paths\<close> is the Go map from a method to
  its paths, given as the list of its entries in the order the \<^verbatim>\<open>range\<close> visits them;
  \<^verbatim>\<open>sort.Strings\<close> sorts byte-wise.
\<close>

definition allowValue :: "string \<Rightarrow> (string \<times> string list) list \<Rightarrow> string" where
  "allowValue url paths =
     (let allow = foldl (\<lambda>allow (m, urls).
                    if m = MethodOptions \<or> \<not> Include urls url then allow
                    else allow @ [m]) [] paths;
          allow' = (if length allow = 0 then allow @ [MethodOptions] else allow)
      in Join (sort allow') '', '')"

definition buildOptionsView :: "string \<Rightarrow> View \<Rightarrow> (string \<times> string list) list \<Rightarrow> View" where
  "buildOptionsView url fn paths =
     (let v = allowValue url paths
      in (\<lambda>c. fn (c\<lparr>fctx := (fctx c)\<lparr>respHeader :=
                      header_set HeaderAllow v (respHeader (fctx c))\<rparr>\<rparr>)))"

text \<open>
  The \<^verbatim>\<open>Path\<close> struct, with the fields \<^verbatim>\<open>handlePath\<close> reads (its declaration is outside
  the router source; the back pointer \<^verbatim>\<open>router\<close> is left out).
\<close>

record Path_struct =
  "method" :: string
  url :: string
  view :: View
  path_middlewares :: Middlewares
  withTimeout :: bool
  timeout :: nat
  timeoutMsg :: string
  timeoutCode :: int
  registered :: bool

fun set_routerMutable :: "Router \<Rightarrow> bool \<Rightarrow> Router" where
  "set_routerMutable (Router par pre ms mut hopt copt c) v = Router par pre ms v hopt copt c"

fun set_customOPTIONS :: "Router \<Rightarrow> string list \<Rightarrow> Router" where
  "set_customOPTIONS (Router par pre ms mut hopt copt c) v = Router par pre ms mut hopt v c"

definition mutable :: "fastrouter \<Rightarrow> Router \<Rightarrow> bool \<Rightarrow> fastrouter \<times> Router" where
  "mutable fr r v =
     (if v \<noteq> routerMutable r then (fr\<lparr>treeMutable := v\<rparr>, set_routerMutable r v)
      else (fr, r))"

definition handlePath ::
  "fastrouter \<Rightarrow> Router \<Rightarrow> Path_struct \<Rightarrow> panic + (fastrouter \<times> Router)" where
  "handlePath fr r p =
     (let isOPTIONS = (method p = MethodOptions);
          (fr1, r1) =
            (if registered p then mutable fr r True
             else if isOPTIONS then mutable fr r (\<not> Include (customOPTIONS r) (url p))
             else if routerMutable r then mutable fr r False
             else (fr, r));
          (view1, r2) =
            (if isOPTIONS then
               (buildOptionsView (url p) (view p) (ListPaths fr1),
                set_customOPTIONS r1 (UniqueAppend (customOPTIONS r1) (url p)))
             else (view p, r1));
          h = handler r2 view1 (path_middlewares p);
          h' = (if withTimeout p
                then TimeoutWithCodeHandler h (timeout p) (timeoutMsg p) (timeoutCode p)
                else h)
      in case Handle fr1 (method p) (url p) h' of
           Inl e \<Rightarrow> Inl e
         | Inr fr2 \<Rightarrow>
             (if handleOPTIONS r2 \<and> \<not> registered p \<and> \<not> isOPTIONS then
                (let view2 = buildOptionsView (url p) emptyView (ListPaths fr2);
                     h2 = handler r2 view2 (path_middlewares p);
                     (fr3, r3) = mutable fr2 r2 True
                 in case Handle fr3 MethodOptions (url p) h2 of
                      Inl e \<Rightarrow> Inl e
                    | Inr fr4 \<Rightarrow> Inr (fr4, r3))
              else Inr (fr2, r2)))"

text \<open>
  \<^verbatim>\<open>Router.Path\<close>: \<open>Inl\<close> is a panic, the router's own or the engine's; otherwise the
  engine and the router after the registration, and the new path.
\<close>

definition Path ::
  "(string \<Rightarrow> string) \<Rightarrow> fastrouter \<Rightarrow> Router \<Rightarrow> string \<Rightarrow> string \<Rightarrow> View \<Rightarrow>
     panic + (fastrouter \<times> Router \<times> Path_struct)" where
  "Path uni fr r m u viewFn =
     (if m \<noteq> ToUpper uni m then
        Inl (MethodCase
          (''The http method '' @ [CHR 0x27] @ m @ [CHR 0x27] @ '' must be in uppercase''))
      else
        (let p = \<lparr>method = m, url = getGroupFullPath r u, view = viewFn,
                  path_middlewares = \<lparr>Before = [], After = [], Skip = []\<rparr>,
                  withTimeout = False, timeout = 0, timeoutMsg = [], timeoutCode = 0,
                  registered = False\<rparr>
         in case handlePath fr r p of
              Inl e \<Rightarrow> Inl e
            | Inr (fr', r') \<Rightarrow> Inr (fr', r', p\<lparr>registered := True\<rparr>)))"

definition MethodGet :: string where
  "MethodGet = ''GET''"



definition GET ::
  "(string \<Rightarrow> string) \<Rightarrow> fastrouter \<Rightarrow> Router \<Rightarrow> string \<Rightarrow> View \<Rightarrow>
     panic + (fastrouter \<times> Router \<times> Path_struct)" where
  "GET uni fr r u viewFn = Path uni fr r MethodGet u viewFn"



section \<open>Reading a trace\<close>

fun is_Ran :: "event \<Rightarrow> bool" where
  "is_Ran (Ran i x b) = True"
| "is_Ran _ = False"

fun is_ErrorView :: "event \<Rightarrow> bool" where
  "is_ErrorView (ErrorView a e sc) = True"
| "is_ErrorView _ = False"

text \<open>The calls of chain elements in a trace, in order; the calls of the error view.\<close>

fun ran_index :: "event \<Rightarrow> nat" where
  "ran_index (Ran i x b) = i"
| "ran_index _ = 0"

definition rans :: "event list \<Rightarrow> event list" where
  "rans tr = filter is_Ran tr"

definition errs :: "event list \<Rightarrow> event list" where
  "errs tr = filter is_ErrorView tr"

text \<open>
  The run of a chain from the wrapper \<open>a\<close>, element by element: the context that
  element \<open>j\<close> is called with when every element before it has passed control on (each
  is called with the context its predecessor left, the flag cleared by line 173); what
  element \<open>j\<close> returns there, and the context it leaves; and whether control reaches
  element \<open>j\<close>, that is, every element before it returned nil with the flag set.
\<close>

fun ctx_at :: "Middleware list \<Rightarrow> RequestCtx \<Rightarrow> nat \<Rightarrow> RequestCtx" where
  "ctx_at chain a 0 = a"
| "ctx_at chain a (Suc j) = (snd (fst (call (chain ! j) (ctx_at chain a j))))\<lparr>next := False\<rparr>"

definition returned :: "Middleware list \<Rightarrow> RequestCtx \<Rightarrow> nat \<Rightarrow> error option" where
  "returned chain a j = fst (fst (call (chain ! j) (ctx_at chain a j)))"

definition left_ctx :: "Middleware list \<Rightarrow> RequestCtx \<Rightarrow> nat \<Rightarrow> RequestCtx" where
  "left_ctx chain a j = snd (fst (call (chain ! j) (ctx_at chain a j)))"

definition reaches :: "Middleware list \<Rightarrow> RequestCtx \<Rightarrow> nat \<Rightarrow> bool" where
  "reaches chain a j =
     list_all (\<lambda>l. returned chain a l = None \<and> next (left_ctx chain a l)) [0..<j]"

text \<open>The events of the pool in a trace.\<close>

fun is_pool :: "event \<Rightarrow> bool" where
  "is_pool (Acquire a) = True"
| "is_pool (Release a) = True"
| "is_pool _ = False"

text \<open>
  The routers from the server's router (outermost) down to \<open>r\<close> itself (innermost), and
  the prefixes of the groups among them, outermost first.
\<close>

fun lineage :: "Router \<Rightarrow> Router list" where
  "lineage (Router par pre ms mut hopt copt c) =
     (case par of None \<Rightarrow> [] | Some p \<Rightarrow> lineage p) @ [Router par pre ms mut hopt copt c]"

fun group_prefixes :: "Router \<Rightarrow> string list" where
  "group_prefixes (Router par pre ms mut hopt copt c) =
     (case par of None \<Rightarrow> [] | Some p \<Rightarrow> group_prefixes p @ [pre])"

fun root :: "Router \<Rightarrow> Router" where
  "root (Router par pre ms mut hopt copt c) =
     (case par of None \<Rightarrow> Router par pre ms mut hopt copt c | Some p \<Rightarrow> root p)"

text \<open>
  The shapes a trace of the dispatch loop can have, started at index \<open>i\<close> on a chain of
  \<open>n\<close> elements: every element from \<open>i\<close> on ran and passed control on; or the
  elements before some \<open>k\<close> did and element \<open>k\<close> returned nil without passing control
  on; or element \<open>k\<close> returned an error, which the error view was called with once.
\<close>

definition passed :: "nat \<Rightarrow> nat \<Rightarrow> event list" where
  "passed i k = map (\<lambda>j. Ran j None True) [i..<k]"

definition shape :: "nat \<Rightarrow> nat \<Rightarrow> event list \<Rightarrow> bool" where
  "shape i n tr \<longleftrightarrow>
     (rans tr = passed i n \<and> errs tr = []) \<or>
     (\<exists>k. i \<le> k \<and> k < n \<and> rans tr = passed i k @ [Ran k None False] \<and> errs tr = []) \<or>
     (\<exists>k e b x. i \<le> k \<and> k < n \<and> rans tr = passed i k @ [Ran k (Some e) b] \<and>
        errs tr = [ErrorView x e (if statusCode (fctx x) = 200 then 500 else statusCode (fctx x))])"

text \<open>
  A chain element passes when, whatever the context, it returns nil and has called
  \<^verbatim>\<open>Next\<close>.
\<close>

definition passes :: "Middleware \<Rightarrow> bool" where
  "passes m \<longleftrightarrow> (\<forall>a. fst (fst (call m a)) = None \<and> next (snd (fst (call m a))))"

section \<open>Worked examples\<close>

definition ex_cfg :: routerConfig where
  "ex_cfg = \<lparr>errorView = defaultErrorView, debug = False\<rparr>"

definition ex_ctx :: fasthttp_ctx where
  "ex_ctx = \<lparr>reqMethod = ''GET'', reqURI = ''/'', statusCode = 200,
              respHeader = [], respBody = []\<rparr>"

text \<open>A view that fails; a view that sets the status to 404 and fails.\<close>

definition failing_view :: View where
  "failing_view c = (Some ''boom'', c)"

definition not_found_view :: View where
  "not_found_view c = (Some ''gone'', c\<lparr>fctx := (fctx c)\<lparr>statusCode := 404\<rparr>\<rparr>)"

text \<open>A middleware that returns nil and does not call \<^verbatim>\<open>Next\<close>.\<close>

definition silent :: View where
  "silent c = (None, c)"

text \<open>
  A server router with one before- and one after-middleware, a group below it with its
  own, and the filters of a route; the same group with a skip list, and filters with a
  skip list; a server router with the debug log on.
\<close>

definition ex_root :: Router where
  "ex_root = UseAfter (UseBefore (newRouter ex_cfg) [Fn 1 Next]) [Fn 6 Next]"

definition ex_group :: Router where
  "ex_group = UseAfter (UseBefore (NewGroupPath ex_root ''/api'') [Fn 2 Next]) [Fn 5 Next]"

definition ex_filters :: Middlewares where
  "ex_filters = \<lparr>Before = [Fn 3 Next], After = [Fn 4 Next], Skip = []\<rparr>"

definition ex_group_skip :: Router where
  "ex_group_skip = SkipMiddlewares ex_group [Fn 1 Next]"

definition ex_filters_skip :: Middlewares where
  "ex_filters_skip = \<lparr>Before = [Fn 3 Next], After = [Fn 4 Next], Skip = [Fn 5 Next]\<rparr>"

definition ex_root_debug :: Router where
  "ex_root_debug = newRouter \<lparr>errorView = defaultErrorView, debug = True\<rparr>"

definition no_filters :: Middlewares where
  "no_filters = \<lparr>Before = [], After = [], Skip = []\<rparr>"



definition ex_paths :: "(string \<times> string list) list" where
  "ex_paths = [(''POST'', [''/a'']), (''GET'', [''/a'', ''/b'']),
               (''OPTIONS'', [''/a'']), (''PUT'', [''/b''])]"

text \<open>
  A middleware that appends a mark to the response body and calls \<^verbatim>\<open>Next\<close>, a view
  that appends a mark, and routers and filters made of such middlewares.
\<close>

definition mark :: "string \<Rightarrow> View" where
  "mark s c = Next (c\<lparr>fctx := (fctx c)\<lparr>respBody := respBody (fctx c) @ s\<rparr>\<rparr>)"

definition mark_view :: "string \<Rightarrow> View" where
  "mark_view s c = (None, c\<lparr>fctx := (fctx c)\<lparr>respBody := respBody (fctx c) @ s\<rparr>\<rparr>)"

definition ex_mroot :: Router where
  "ex_mroot = UseAfter (UseBefore (newRouter ex_cfg) [Fn 1 (mark ''1'')]) [Fn 6 (mark ''6'')]"

definition ex_mgroup :: Router where
  "ex_mgroup =
     UseAfter (UseBefore (NewGroupPath ex_mroot ''/api'') [Fn 2 (mark ''2'')]) [Fn 5 (mark ''5'')]"

definition ex_mfilters :: Middlewares where
  "ex_mfilters = \<lparr>Before = [Fn 3 (mark ''3'')], After = [Fn 4 (mark ''4'')], Skip = []\<rparr>"


section \<open>The dispatch loop, step by step\<close>

declare loop.simps [simp del]

lemma loop_done: "\<not> i < length chain \<Longrightarrow> loop cf chain i a = (a, [])"
  by (subst loop.simps) simp

lemma loop_error:
  "i < length chain \<Longrightarrow> call (chain ! i) a = ((Some err, a1), logged) \<Longrightarrow>
   loop cf chain i a =
     (errorView cf a1 err (if statusCode (fctx a1) = 200 then 500 else statusCode (fctx a1)),
      logged @ [Ran i (Some err) (next a1), Printf (''error view: '' @ err),
                ErrorView a1 err (if statusCode (fctx a1) = 200 then 500 else statusCode (fctx a1))])"
  by (subst loop.simps) (simp add: Let_def StatusOK_def StatusInternalServerError_def)

lemma loop_stop:
  "i < length chain \<Longrightarrow> call (chain ! i) a = ((None, a1), logged) \<Longrightarrow> \<not> next a1 \<Longrightarrow>
   loop cf chain i a = (a1, logged @ [Ran i None False])"
  by (subst loop.simps) simp

lemma loop_pass:
  "i < length chain \<Longrightarrow> call (chain ! i) a = ((None, a1), logged) \<Longrightarrow> next a1 \<Longrightarrow>
   loop cf chain i a =
     (fst (loop cf chain (Suc i) (a1\<lparr>next := False\<rparr>)),
      logged @ Ran i None True # snd (loop cf chain (Suc i) (a1\<lparr>next := False\<rparr>)))"
  by (subst loop.simps) (simp add: case_prod_beta)

lemma rans_Nil [simp]: "rans [] = []"
  by (simp add: rans_def)

lemma errs_Nil [simp]: "errs [] = []"
  by (simp add: errs_def)

lemma rans_Cons [simp]: "rans (e # tr) = (if is_Ran e then e # rans tr else rans tr)"
  by (simp add: rans_def)

lemma errs_Cons [simp]: "errs (e # tr) = (if is_ErrorView e then e # errs tr else errs tr)"
  by (simp add: errs_def)

lemma rans_append [simp]: "rans (xs @ ys) = rans xs @ rans ys"
  by (simp add: rans_def)

lemma errs_append [simp]: "errs (xs @ ys) = errs xs @ errs ys"
  by (simp add: errs_def)

lemma in_rans: "Ran j y d \<in> set (rans tr) \<longleftrightarrow> Ran j y d \<in> set tr"
  by (simp add: rans_def)

lemma in_errs: "ErrorView x e sc \<in> set (errs tr) \<longleftrightarrow> ErrorView x e sc \<in> set tr"
  by (simp add: errs_def)

text \<open>A chain element logs at most lines of the logger.\<close>

lemma call_rans [simp]: "rans (snd (call m c)) = []"
  by (cases m) simp_all

lemma call_errs [simp]: "errs (snd (call m c)) = []"
  by (cases m) simp_all

lemma call_pool [simp]: "filter is_pool (snd (call m c)) = []"
  by (cases m) simp_all

lemma passed_step: "i < k \<Longrightarrow> Ran i None True # passed (Suc i) k = passed i k"
  by (simp add: passed_def upt_conv_Cons)

lemma passed_mem: "Ran j y d \<in> set (passed i k) \<longleftrightarrow> i \<le> j \<and> j < k \<and> y = None \<and> d"
  by (auto simp: passed_def)

lemma shape_step:
  assumes "shape (Suc i) n tr2" "i < n" "rans tr = Ran i None True # rans tr2" "errs tr = errs tr2"
  shows "shape i n tr"
proof -
  from assms(1) consider
      (all) "rans tr2 = passed (Suc i) n" "errs tr2 = []"
    | (stop) k where "Suc i \<le> k" "k < n"
        "rans tr2 = passed (Suc i) k @ [Ran k None False]" "errs tr2 = []"
    | (err) k e b x where "Suc i \<le> k" "k < n"
        "rans tr2 = passed (Suc i) k @ [Ran k (Some e) b]"
        "errs tr2 = [ErrorView x e (if statusCode (fctx x) = 200 then 500 else statusCode (fctx x))]"
    unfolding shape_def by blast
  then show ?thesis
  proof cases
    case all
    with assms show ?thesis by (simp add: shape_def passed_step)
  next
    case stop
    then have "rans tr = passed i k @ [Ran k None False]" "i \<le> k"
      using assms(3) passed_step [of i k] by auto
    with stop assms(4) show ?thesis unfolding shape_def by metis
  next
    case err
    then have "rans tr = passed i k @ [Ran k (Some e) b]" "i \<le> k"
      using assms(3) passed_step [of i k] by auto
    with err assms(4) show ?thesis unfolding shape_def by metis
  qed
qed

lemma loop_shape: "shape i (length chain) (snd (loop cf chain i a))"
proof (induction cf chain i a rule: loop.induct)
  case (1 cf chain i actx)
  show ?case
  proof (cases "i < length chain")
    case False
    then show ?thesis by (simp add: loop_done shape_def passed_def)
  next
    case lt: True
    obtain r a1 logged where c: "call (chain ! i) actx = ((r, a1), logged)"
      by (metis prod.exhaust)
    have lg: "rans logged = []" "errs logged = []"
      using call_rans [of "chain ! i" actx] call_errs [of "chain ! i" actx] c by simp_all
    show ?thesis
    proof (cases r)
      case (Some err)
      with lt c lg have
        "rans (snd (loop cf chain i actx)) = passed i i @ [Ran i (Some err) (next a1)]"
        "errs (snd (loop cf chain i actx)) =
           [ErrorView a1 err (if statusCode (fctx a1) = 200 then 500 else statusCode (fctx a1))]"
        by (simp_all add: loop_error passed_def)
      with lt show ?thesis unfolding shape_def by blast
    next
      case None
      show ?thesis
      proof (cases "next a1")
        case False
        with lt c lg None have
          "rans (snd (loop cf chain i actx)) = passed i i @ [Ran i None False]"
          "errs (snd (loop cf chain i actx)) = []"
          by (simp_all add: loop_stop passed_def)
        with lt show ?thesis unfolding shape_def by blast
      next
        case True
        let ?rest = "loop cf chain (i + 1) (a1\<lparr>next := False\<rparr>)"
        have ih: "shape (Suc i) (length chain) (snd ?rest)"
          using "1.IH" [of "(r, a1)" logged r a1] lt c None True by simp
        have tr: "snd (loop cf chain i actx) = logged @ Ran i None True # snd ?rest"
          using lt c None True by (simp add: loop_pass)
        show ?thesis
          by (rule shape_step [OF ih lt]) (simp_all add: tr lg)
      qed
    qed
  qed
qed

lemma loop_no_pool: "filter is_pool (snd (loop cf chain i a)) = []"
proof (induction cf chain i a rule: loop.induct)
  case (1 cf chain i actx)
  show ?case
  proof (cases "i < length chain")
    case False
    then show ?thesis by (simp add: loop_done)
  next
    case lt: True
    obtain r a1 logged where c: "call (chain ! i) actx = ((r, a1), logged)"
      by (metis prod.exhaust)
    have lg: "filter is_pool logged = []"
      using call_pool [of "chain ! i" actx] c by simp
    show ?thesis
    proof (cases r)
      case (Some err)
      with lt c lg show ?thesis by (simp add: loop_error)
    next
      case None
      show ?thesis
      proof (cases "next a1")
        case False
        with lt c lg None show ?thesis by (simp add: loop_stop)
      next
        case True
        have "filter is_pool (snd (loop cf chain (i + 1) (a1\<lparr>next := False\<rparr>))) = []"
          using "1.IH" [of "(r, a1)" logged r a1] lt c None True by simp
        with lt c lg None True show ?thesis by (simp add: loop_pass)
      qed
    qed
  qed
qed

lemma not_Ran_logged: "rans logged = [] \<Longrightarrow> Ran i x b \<notin> set logged"
  using in_rans [of i x b logged] by simp

text \<open>
  The flag is clear before every element: a function that leaves the flag as it is, is
  recorded with the flag clear.
\<close>

lemma loop_flag:
  "\<not> next a \<Longrightarrow> Ran i x b \<in> set (snd (loop cf chain k a)) \<Longrightarrow>
   chain ! i = Fn p f \<Longrightarrow> \<forall>c. next (snd (f c)) = next c \<Longrightarrow> \<not> b"
proof (induction cf chain k a rule: loop.induct)
  case (1 cf chain k actx)
  note mem = "1.prems"(2)
  show ?case
  proof (cases "k < length chain")
    case False
    with mem show ?thesis by (simp add: loop_done)
  next
    case lt: True
    obtain r a1 logged where c: "call (chain ! k) actx = ((r, a1), logged)"
      by (metis prod.exhaust)
    have "rans logged = []"
      using call_rans [of "chain ! k" actx] c by simp
    then have lg: "Ran i x b \<notin> set logged"
      by (rule not_Ran_logged)
    have here: "\<not> next a1" if "i = k"
    proof -
      from that "1.prems"(3) c have "f actx = (r, a1)" by simp
      then have "next a1 = next (snd (f actx))" by simp
      also have "\<dots> = next actx" using "1.prems"(4) by blast
      finally show ?thesis using "1.prems"(1) by simp
    qed
    show ?thesis
    proof (cases r)
      case (Some err)
      with lt c have "snd (loop cf chain k actx) =
          logged @ [Ran k (Some err) (next a1), Printf (''error view: '' @ err),
            ErrorView a1 err (if statusCode (fctx a1) = 200 then 500 else statusCode (fctx a1))]"
        by (simp add: loop_error)
      with mem lg have "i = k" "b = next a1" by simp_all
      with here show ?thesis by simp
    next
      case None
      show ?thesis
      proof (cases "next a1")
        case False
        with lt c None have "snd (loop cf chain k actx) = logged @ [Ran k None False]"
          by (simp add: loop_stop)
        with mem lg show ?thesis by simp
      next
        case True
        with here have ne: "i \<noteq> k" by blast
        from lt c None True have "snd (loop cf chain k actx) =
            logged @ Ran k None True # snd (loop cf chain (Suc k) (a1\<lparr>next := False\<rparr>))"
          by (simp add: loop_pass)
        with mem lg ne
        have "Ran i x b \<in> set (snd (loop cf chain (k + 1) (a1\<lparr>next := False\<rparr>)))"
          by simp
        moreover have "Ran i x b \<in> set (snd (loop cf chain (k + 1) (a1\<lparr>next := False\<rparr>)))
            \<Longrightarrow> \<not> b"
          using "1.IH" [of "(r, a1)" logged r a1] lt c None True "1.prems"(3,4) by simp
        ultimately show ?thesis by simp
      qed
    qed
  qed
qed

section \<open>Serving a request\<close>

lemma serve_trace:
  "snd (serve cf chain c) =
     Acquire (AcquireRequestCtx c) # snd (loop cf chain 0 (AcquireRequestCtx c)) @
     [Release (ReleaseRequestCtx (fst (loop cf chain 0 (AcquireRequestCtx c))))]"
  by (simp add: serve_def Let_def case_prod_beta)

lemma serve_result:
  "fst (serve cf chain c) = fctx (ReleaseRequestCtx (fst (loop cf chain 0 (AcquireRequestCtx c))))"
  by (simp add: serve_def Let_def case_prod_beta)

lemma serve_shape: "shape 0 (length chain) (snd (serve cf chain c))"
  using loop_shape [of 0 chain cf "AcquireRequestCtx c"]
  by (simp add: shape_def serve_trace)

lemma serve_flag:
  assumes "Ran i x b \<in> set (snd (serve cf chain c))" "chain ! i = Fn p f"
    "\<forall>c. next (snd (f c)) = next c"
  shows "\<not> b"
proof -
  from assms(1) have m: "Ran i x b \<in> set (snd (loop cf chain 0 (AcquireRequestCtx c)))"
    by (simp add: serve_trace)
  have n: "\<not> next (AcquireRequestCtx c)"
    by (simp add: AcquireRequestCtx_def)
  from n m assms(2,3) show ?thesis by (rule loop_flag)
qed

text \<open>Which calls a trace of a whole request holds, by its shape.\<close>

lemma shape_cases:
  assumes "shape 0 n tr"
  obtains
    (all) "\<And>j y d. Ran j y d \<in> set tr \<longleftrightarrow> j < n \<and> y = None \<and> d" "errs tr = []"
  | (stop) k where "k < n"
      "\<And>j y d. Ran j y d \<in> set tr \<longleftrightarrow> (j < k \<and> y = None \<and> d) \<or> (j = k \<and> y = None \<and> \<not> d)"
      "errs tr = []"
  | (err) k e b x where "k < n"
      "\<And>j y d. Ran j y d \<in> set tr \<longleftrightarrow> (j < k \<and> y = None \<and> d) \<or> (j = k \<and> y = Some e \<and> d = b)"
      "errs tr = [ErrorView x e (if statusCode (fctx x) = 200 then 500 else statusCode (fctx x))]"
proof -
  from assms consider
      (a) "rans tr = passed 0 n" "errs tr = []"
    | (b) k where "k < n" "rans tr = passed 0 k @ [Ran k None False]" "errs tr = []"
    | (c) k e b x where "k < n" "rans tr = passed 0 k @ [Ran k (Some e) b]"
        "errs tr = [ErrorView x e (if statusCode (fctx x) = 200 then 500 else statusCode (fctx x))]"
    unfolding shape_def by blast
  then show thesis
  proof cases
    case a
    have h: "Ran j y d \<in> set tr \<longleftrightarrow> j < n \<and> y = None \<and> d" for j y d
      using in_rans [of j y d tr] a(1) by (simp add: passed_mem)
    show thesis by (rule all [OF h a(2)])
  next
    case b
    have h: "Ran j y d \<in> set tr \<longleftrightarrow> (j < k \<and> y = None \<and> d) \<or> (j = k \<and> y = None \<and> \<not> d)" for j y d
      using in_rans [of j y d tr] b(2) by (auto simp: passed_mem)
    show thesis by (rule stop [OF b(1) h b(3)])
  next
    case c
    have h: "Ran j y d \<in> set tr \<longleftrightarrow> (j < k \<and> y = None \<and> d) \<or> (j = k \<and> y = Some e \<and> d = b)" for j y d
      using in_rans [of j y d tr] c(2) by (auto simp: passed_mem)
    show thesis by (rule err [OF c(1) h c(3)])
  qed
qed

text \<open>The traces of three requests.\<close>

lemma ex_trace_error:
  "snd (serve ex_cfg [Fn 1 Next, ViewStep failing_view, Fn 2 Next] ex_ctx) =
     [Acquire \<lparr>next = False, skipView = False, fctx = ex_ctx\<rparr>,
      Ran 0 None True, Ran 1 (Some ''boom'') False, Printf ''error view: boom'',
      ErrorView \<lparr>next = False, skipView = False, fctx = ex_ctx\<rparr> ''boom'' 500,
      Release \<lparr>next = False, skipView = False,
        fctx = ex_ctx\<lparr>statusCode := 500, respHeader := [], respBody := ''boom''\<rparr>\<rparr>]"
  by (simp add: serve_def Let_def loop.simps Next_def AcquireRequestCtx_def ReleaseRequestCtx_def
      StatusOK_def StatusInternalServerError_def ex_cfg_def ex_ctx_def failing_view_def
      defaultErrorView_def)

lemma ex_trace_not_found:
  "snd (serve ex_cfg [Fn 1 Next, ViewStep not_found_view, Fn 2 Next] ex_ctx) =
     [Acquire \<lparr>next = False, skipView = False, fctx = ex_ctx\<rparr>,
      Ran 0 None True, Ran 1 (Some ''gone'') False, Printf ''error view: gone'',
      ErrorView \<lparr>next = False, skipView = False, fctx = ex_ctx\<lparr>statusCode := 404\<rparr>\<rparr> ''gone'' 404,
      Release \<lparr>next = False, skipView = False,
        fctx = ex_ctx\<lparr>statusCode := 404, respHeader := [], respBody := ''gone''\<rparr>\<rparr>]"
  by (simp add: serve_def Let_def loop.simps Next_def AcquireRequestCtx_def ReleaseRequestCtx_def
      StatusOK_def StatusInternalServerError_def ex_cfg_def ex_ctx_def not_found_view_def
      defaultErrorView_def)

lemma ex_trace_silent:
  "snd (serve ex_cfg [Fn 1 Next, Fn 2 silent, ViewStep emptyView, Fn 3 Next] ex_ctx) =
     [Acquire \<lparr>next = False, skipView = False, fctx = ex_ctx\<rparr>,
      Ran 0 None True, Ran 1 None False,
      Release \<lparr>next = False, skipView = False, fctx = ex_ctx\<rparr>]"
  by (simp add: serve_def Let_def loop.simps Next_def AcquireRequestCtx_def ReleaseRequestCtx_def
      ex_cfg_def ex_ctx_def silent_def)

lemma reaches_iff:
  "reaches chain a j \<longleftrightarrow> (\<forall>l<j. returned chain a l = None \<and> next (left_ctx chain a l))"
  by (auto simp: reaches_def list_all_iff)

lemma reaches_0 [simp]: "reaches chain a 0"
  by (simp add: reaches_def)

lemma reaches_Suc:
  "reaches chain a (Suc j) \<longleftrightarrow>
     reaches chain a j \<and> returned chain a j = None \<and> next (left_ctx chain a j)"
  by (auto simp: reaches_iff less_Suc_eq)

lemma reaches_le: "reaches chain a k \<Longrightarrow> j \<le> k \<Longrightarrow> reaches chain a j"
  by (simp add: reaches_iff)

lemma reaches_passed:
  "reaches chain a k \<Longrightarrow> i < k \<Longrightarrow> returned chain a i = None \<and> next (left_ctx chain a i)"
  by (simp add: reaches_iff)

lemma call_at:
  "call (chain ! i) (ctx_at chain a i) =
     ((returned chain a i, left_ctx chain a i), snd (call (chain ! i) (ctx_at chain a i)))"
  by (simp add: returned_def left_ctx_def)

lemma ctx_at_Suc [simp]: "ctx_at chain a (Suc i) = (left_ctx chain a i)\<lparr>next := False\<rparr>"
  by (simp add: left_ctx_def)

declare ctx_at.simps(2) [simp del]

text \<open>While control is passed on, the loop moves from element to element.\<close>

lemma loop_pass_at:
  assumes "i < length chain" "returned chain a i = None" "next (left_ctx chain a i)"
  shows "fst (loop cf chain i (ctx_at chain a i)) = fst (loop cf chain (Suc i) (ctx_at chain a (Suc i)))"
    and "snd (loop cf chain i (ctx_at chain a i)) =
           snd (call (chain ! i) (ctx_at chain a i)) @
           Ran i None True # snd (loop cf chain (Suc i) (ctx_at chain a (Suc i)))"
  using loop_pass [OF assms(1), of "ctx_at chain a i" "left_ctx chain a i"
      "snd (call (chain ! i) (ctx_at chain a i))" cf] call_at [of chain i a] assms(2,3)
  by simp_all

lemma loop_advance:
  "reaches chain a k \<Longrightarrow> i \<le> k \<Longrightarrow> k \<le> length chain \<Longrightarrow>
   fst (loop cf chain i (ctx_at chain a i)) = fst (loop cf chain k (ctx_at chain a k)) \<and>
   errs (snd (loop cf chain i (ctx_at chain a i))) = errs (snd (loop cf chain k (ctx_at chain a k)))"
proof (induction "k - i" arbitrary: i)
  case 0
  then show ?case by simp
next
  case (Suc d)
  then have lt: "i < k" "i < length chain" by simp_all
  from reaches_passed [OF Suc.prems(1) lt(1)]
  have p: "returned chain a i = None" "next (left_ctx chain a i)" by simp_all
  have ih: "fst (loop cf chain (Suc i) (ctx_at chain a (Suc i))) = fst (loop cf chain k (ctx_at chain a k)) \<and>
      errs (snd (loop cf chain (Suc i) (ctx_at chain a (Suc i)))) =
      errs (snd (loop cf chain k (ctx_at chain a k)))"
    using Suc.hyps(2) Suc.prems lt by (intro Suc.hyps(1)) simp_all
  show ?case
    using loop_pass_at [OF lt(2) p, of cf] ih by simp
qed

lemma loop_ran:
  "reaches chain a i \<Longrightarrow>
   Ran j x b \<in> set (snd (loop cf chain i (ctx_at chain a i))) \<longleftrightarrow>
     i \<le> j \<and> j < length chain \<and> reaches chain a j \<and>
     x = returned chain a j \<and> b = next (left_ctx chain a j)"
proof (induction "length chain - i" arbitrary: i)
  case 0
  then have "\<not> i < length chain" by simp
  then show ?case by (simp add: loop_done)
next
  case (Suc d)
  then have lt: "i < length chain" by simp
  let ?lg = "snd (call (chain ! i) (ctx_at chain a i))"
  have lg: "Ran j x b \<notin> set ?lg"
    by (rule not_Ran_logged) simp
  have later: "\<not> reaches chain a j" if "i < j" "\<not> (returned chain a i = None \<and> next (left_ctx chain a i))"
    using that reaches_passed [of chain a j i] by blast
  show ?case
  proof (cases "returned chain a i")
    case (Some err)
    have "snd (loop cf chain i (ctx_at chain a i)) =
        ?lg @ [Ran i (Some err) (next (left_ctx chain a i)), Printf (''error view: '' @ err),
          ErrorView (left_ctx chain a i) err
            (if statusCode (fctx (left_ctx chain a i)) = 200 then 500
             else statusCode (fctx (left_ctx chain a i)))]"
      using loop_error [OF lt, of "ctx_at chain a i" err "left_ctx chain a i" ?lg cf]
        call_at [of chain i a] Some by simp
    with lg Some Suc.prems lt later show ?thesis by (cases "i = j") auto
  next
    case None
    show ?thesis
    proof (cases "next (left_ctx chain a i)")
      case False
      have "snd (loop cf chain i (ctx_at chain a i)) = ?lg @ [Ran i None False]"
        using loop_stop [OF lt, of "ctx_at chain a i" "left_ctx chain a i" ?lg cf]
          call_at [of chain i a] None False by simp
      with lg None False Suc.prems lt later show ?thesis by (cases "i = j") auto
    next
      case True
      have r: "reaches chain a (Suc i)"
        using Suc.prems None True by (simp add: reaches_Suc)
      have ih: "Ran j x b \<in> set (snd (loop cf chain (Suc i) (ctx_at chain a (Suc i)))) \<longleftrightarrow>
          Suc i \<le> j \<and> j < length chain \<and> reaches chain a j \<and>
          x = returned chain a j \<and> b = next (left_ctx chain a j)"
        using Suc.hyps(2) r by (intro Suc.hyps(1)) simp_all
      from loop_pass_at(2) [OF lt None True, of cf] lg ih None True Suc.prems lt
      show ?thesis by (cases "i = j") auto
    qed
  qed
qed

text \<open>How the loop ends: with an error, with an element that keeps control, or at the end of the chain.\<close>

lemma loop_ends_error:
  assumes "i < length chain" "reaches chain a i" "returned chain a i = Some e"
  shows "fst (loop cf chain 0 a) =
           errorView cf (left_ctx chain a i) e
             (if statusCode (fctx (left_ctx chain a i)) = 200 then 500
              else statusCode (fctx (left_ctx chain a i)))"
    and "errs (snd (loop cf chain 0 a)) =
           [ErrorView (left_ctx chain a i) e
             (if statusCode (fctx (left_ctx chain a i)) = 200 then 500
              else statusCode (fctx (left_ctx chain a i)))]"
  using loop_advance [OF assms(2), of 0 cf] assms(1)
    loop_error [OF assms(1), of "ctx_at chain a i" e "left_ctx chain a i"
      "snd (call (chain ! i) (ctx_at chain a i))" cf]
    call_at [of chain i a] assms(3)
  by simp_all

lemma loop_ends_halt:
  assumes "i < length chain" "reaches chain a i" "returned chain a i = None"
    "\<not> next (left_ctx chain a i)"
  shows "fst (loop cf chain 0 a) = left_ctx chain a i"
    and "errs (snd (loop cf chain 0 a)) = []"
  using loop_advance [OF assms(2), of 0 cf] assms(1)
    loop_stop [OF assms(1), of "ctx_at chain a i" "left_ctx chain a i"
      "snd (call (chain ! i) (ctx_at chain a i))" cf]
    call_at [of chain i a] assms(3,4)
  by simp_all

lemma loop_ends_complete:
  assumes "reaches chain a (length chain)"
  shows "fst (loop cf chain 0 a) = ctx_at chain a (length chain)"
    and "errs (snd (loop cf chain 0 a)) = []"
  using loop_advance [OF assms, of 0 cf] by (simp_all add: loop_done)

lemma serve_ran:
  "Ran j x b \<in> set (snd (serve cf chain c)) \<longleftrightarrow>
     j < length chain \<and> reaches chain (AcquireRequestCtx c) j \<and>
     x = returned chain (AcquireRequestCtx c) j \<and>
     b = next (left_ctx chain (AcquireRequestCtx c) j)"
  using loop_ran [of chain "AcquireRequestCtx c" 0 j x b cf]
  by (simp add: serve_trace)

text \<open>The runs of three requests, element by element.\<close>

lemma ex_run_error:
  "reaches [Fn 1 Next, ViewStep failing_view, Fn 2 Next] (AcquireRequestCtx ex_ctx) 1"
  "returned [Fn 1 Next, ViewStep failing_view, Fn 2 Next] (AcquireRequestCtx ex_ctx) 1 = Some ''boom''"
  "left_ctx [Fn 1 Next, ViewStep failing_view, Fn 2 Next] (AcquireRequestCtx ex_ctx) 1 =
     \<lparr>next = False, skipView = False, fctx = ex_ctx\<rparr>"
  by (simp_all add: reaches_def returned_def left_ctx_def Next_def failing_view_def
      AcquireRequestCtx_def)

lemma ex_run_not_found:
  "reaches [Fn 1 Next, ViewStep not_found_view, Fn 2 Next] (AcquireRequestCtx ex_ctx) 1"
  "returned [Fn 1 Next, ViewStep not_found_view, Fn 2 Next] (AcquireRequestCtx ex_ctx) 1 = Some ''gone''"
  "left_ctx [Fn 1 Next, ViewStep not_found_view, Fn 2 Next] (AcquireRequestCtx ex_ctx) 1 =
     \<lparr>next = False, skipView = False, fctx = ex_ctx\<lparr>statusCode := 404\<rparr>\<rparr>"
  by (simp_all add: reaches_def returned_def left_ctx_def Next_def not_found_view_def
      AcquireRequestCtx_def)

lemma ex_run_ok:
  "reaches [Fn 1 Next, ViewStep emptyView, Fn 2 Next] (AcquireRequestCtx ex_ctx) 3"
  "ctx_at [Fn 1 Next, ViewStep emptyView, Fn 2 Next] (AcquireRequestCtx ex_ctx) 3 =
     \<lparr>next = False, skipView = False, fctx = ex_ctx\<rparr>"
  by (simp_all add: reaches_def returned_def left_ctx_def Next_def emptyView_def
      AcquireRequestCtx_def eval_nat_numeral)

lemma ex_trace_ok:
  "snd (serve ex_cfg [Fn 1 Next, ViewStep emptyView, Fn 2 Next] ex_ctx) =
     [Acquire \<lparr>next = False, skipView = False, fctx = ex_ctx\<rparr>,
      Ran 0 None True, Ran 1 None True, Ran 2 None True,
      Release \<lparr>next = False, skipView = False, fctx = ex_ctx\<rparr>]"
  by (simp add: serve_def Let_def loop.simps Next_def AcquireRequestCtx_def ReleaseRequestCtx_def
      ex_cfg_def ex_ctx_def emptyView_def)

lemma ex_response_error:
  "fst (serve ex_cfg [Fn 1 Next, ViewStep failing_view, Fn 2 Next] ex_ctx) =
     ex_ctx\<lparr>statusCode := 500, respHeader := [], respBody := ''boom''\<rparr>"
  by (simp add: serve_def Let_def loop.simps Next_def AcquireRequestCtx_def ReleaseRequestCtx_def
      StatusOK_def StatusInternalServerError_def ex_cfg_def ex_ctx_def failing_view_def
      defaultErrorView_def)

lemma ex_response_not_found:
  "fst (serve ex_cfg [Fn 1 Next, ViewStep not_found_view, Fn 2 Next] ex_ctx) =
     ex_ctx\<lparr>statusCode := 404, respHeader := [], respBody := ''gone''\<rparr>"
  by (simp add: serve_def Let_def loop.simps Next_def AcquireRequestCtx_def ReleaseRequestCtx_def
      StatusOK_def StatusInternalServerError_def ex_cfg_def ex_ctx_def not_found_view_def
      defaultErrorView_def)

section \<open>Claims about dispatch\<close>

text \<open>
  Claim C2. If an element of the handler chain (a before-middleware, the view, an
  after-middleware) returns a non-nil error, no later element of the chain runs for
  that request, and the configured error view is called exactly once, with that error.
  Here element \<open>i\<close> is reached and returns the error \<open>e\<close>, leaving the context \<open>x\<close>:
  the trace holds this call and no call of a later element, control reaches no later
  element, the one call of the error view in the trace is for \<open>x\<close> and \<open>e\<close>, and the
  response of the request is what the configured error view made of \<open>x\<close> and \<open>e\<close>.
\<close>

theorem C2_error_halts_chain:
  assumes "i < length chain" "reaches chain (AcquireRequestCtx c) i"
    "returned chain (AcquireRequestCtx c) i = Some e"
  shows "(let x = left_ctx chain (AcquireRequestCtx c) i;
              sc = (if statusCode (fctx x) = 200 then 500 else statusCode (fctx x))
          in Ran i (Some e) (next x) \<in> set (snd (serve cf chain c)) \<and>
             (\<forall>j y d. i < j \<longrightarrow> Ran j y d \<notin> set (snd (serve cf chain c))) \<and>
             (\<forall>j. i < j \<longrightarrow> \<not> reaches chain (AcquireRequestCtx c) j) \<and>
             errs (snd (serve cf chain c)) = [ErrorView x e sc] \<and>
             fst (serve cf chain c) = fctx (ReleaseRequestCtx (errorView cf x e sc)))"
proof -
  let ?a = "AcquireRequestCtx c"
  have later: "\<not> reaches chain ?a j" if "i < j" for j
    using reaches_passed [of chain ?a j i] that assms(3) by auto
  have ran: "Ran i (Some e) (next (left_ctx chain ?a i)) \<in> set (snd (serve cf chain c))"
    using assms by (simp add: serve_ran)
  have none: "Ran j y d \<notin> set (snd (serve cf chain c))" if "i < j" for j y d
    using later [OF that] by (simp add: serve_ran)
  from loop_ends_error [OF assms, of cf] have
    "errs (snd (serve cf chain c)) =
       [ErrorView (left_ctx chain ?a i) e
         (if statusCode (fctx (left_ctx chain ?a i)) = 200 then 500
          else statusCode (fctx (left_ctx chain ?a i)))]"
    "fst (serve cf chain c) =
       fctx (ReleaseRequestCtx (errorView cf (left_ctx chain ?a i) e
         (if statusCode (fctx (left_ctx chain ?a i)) = 200 then 500
          else statusCode (fctx (left_ctx chain ?a i)))))"
    by (simp_all add: serve_trace serve_result)
  with ran none later show ?thesis unfolding Let_def by blast
qed

theorem C2_error_halts_chain_witness:
  "(1::nat) < length [Fn 1 Next, ViewStep failing_view, Fn 2 Next] \<and>
   reaches [Fn 1 Next, ViewStep failing_view, Fn 2 Next] (AcquireRequestCtx ex_ctx) 1 \<and>
   returned [Fn 1 Next, ViewStep failing_view, Fn 2 Next] (AcquireRequestCtx ex_ctx) 1 =
     Some ''boom'' \<and>
   Ran 1 (Some ''boom'') False
     \<in> set (snd (serve ex_cfg [Fn 1 Next, ViewStep failing_view, Fn 2 Next] ex_ctx)) \<and>
   Ran 2 None True
     \<notin> set (snd (serve ex_cfg [Fn 1 Next, ViewStep failing_view, Fn 2 Next] ex_ctx)) \<and>
   errs (snd (serve ex_cfg [Fn 1 Next, ViewStep failing_view, Fn 2 Next] ex_ctx)) =
     [ErrorView \<lparr>next = False, skipView = False, fctx = ex_ctx\<rparr> ''boom'' 500] \<and>
   fst (serve ex_cfg [Fn 1 Next, ViewStep failing_view, Fn 2 Next] ex_ctx) =
     ex_ctx\<lparr>statusCode := 500, respHeader := [], respBody := ''boom''\<rparr>"
proof -
  have l: "(1::nat) < length [Fn 1 Next, ViewStep failing_view, Fn 2 Next]"
    by simp
  from C2_error_halts_chain [OF l ex_run_error(1,2), of ex_cfg] ex_run_error l
  show ?thesis
    unfolding ex_trace_error ex_response_error by simp
qed

text \<open>
  Claim C3. When a chain element returns an error, the status code given to the error
  view is the current status code of the response, except that it is 500 (internal
  server error) in place of a status that is still 200 (OK): the code given differs
  from the current status exactly when that status is 200. Here element \<open>i\<close> is
  reached and returns the error \<open>e\<close>, leaving the context \<open>x\<close> with the current
  status: the response of the request is what the configured error view made of \<open>x\<close>,
  \<open>e\<close> and this code, and every call of the error view in the trace is this one.
\<close>

theorem C3_error_status:
  assumes "i < length chain" "reaches chain (AcquireRequestCtx c) i"
    "returned chain (AcquireRequestCtx c) i = Some e"
  shows "(let x = left_ctx chain (AcquireRequestCtx c) i;
              cur = statusCode (fctx x);
              sc = (if cur = 200 then 500 else cur)
          in fst (serve cf chain c) = fctx (ReleaseRequestCtx (errorView cf x e sc)) \<and>
             ErrorView x e sc \<in> set (snd (serve cf chain c)) \<and>
             (\<forall>y e' s. ErrorView y e' s \<in> set (snd (serve cf chain c)) \<longrightarrow>
                y = x \<and> e' = e \<and> s = sc) \<and>
             (sc \<noteq> cur \<longleftrightarrow> cur = 200))"
proof -
  let ?a = "AcquireRequestCtx c"
  let ?x = "left_ctx chain ?a i"
  let ?sc = "if statusCode (fctx ?x) = 200 then 500 else statusCode (fctx ?x)"
  from loop_ends_error [OF assms, of cf] have
    e: "errs (snd (serve cf chain c)) = [ErrorView ?x e ?sc]" and
    r: "fst (serve cf chain c) = fctx (ReleaseRequestCtx (errorView cf ?x e ?sc))"
    by (simp_all add: serve_trace serve_result)
  have m: "ErrorView y e' s \<in> set (snd (serve cf chain c)) \<longleftrightarrow> y = ?x \<and> e' = e \<and> s = ?sc"
    for y e' s
    using in_errs [of y e' s "snd (serve cf chain c)"] e by auto
  have "?sc \<noteq> statusCode (fctx ?x) \<longleftrightarrow> statusCode (fctx ?x) = 200"
    by simp
  with r m show ?thesis unfolding Let_def by blast
qed

theorem C3_error_status_witness:
  "(1::nat) < length [Fn 1 Next, ViewStep failing_view, Fn 2 Next] \<and>
   reaches [Fn 1 Next, ViewStep failing_view, Fn 2 Next] (AcquireRequestCtx ex_ctx) 1 \<and>
   returned [Fn 1 Next, ViewStep failing_view, Fn 2 Next] (AcquireRequestCtx ex_ctx) 1 =
     Some ''boom'' \<and>
   statusCode (fctx (left_ctx [Fn 1 Next, ViewStep failing_view, Fn 2 Next]
     (AcquireRequestCtx ex_ctx) 1)) = 200 \<and>
   statusCode (fst (serve ex_cfg [Fn 1 Next, ViewStep failing_view, Fn 2 Next] ex_ctx)) = 500 \<and>
   ErrorView \<lparr>next = False, skipView = False, fctx = ex_ctx\<rparr> ''boom'' 500
     \<in> set (snd (serve ex_cfg [Fn 1 Next, ViewStep failing_view, Fn 2 Next] ex_ctx)) \<and>
   returned [Fn 1 Next, ViewStep not_found_view, Fn 2 Next] (AcquireRequestCtx ex_ctx) 1 =
     Some ''gone'' \<and>
   statusCode (fctx (left_ctx [Fn 1 Next, ViewStep not_found_view, Fn 2 Next]
     (AcquireRequestCtx ex_ctx) 1)) = 404 \<and>
   statusCode (fst (serve ex_cfg [Fn 1 Next, ViewStep not_found_view, Fn 2 Next] ex_ctx)) = 404 \<and>
   ErrorView \<lparr>next = False, skipView = False, fctx = ex_ctx\<lparr>statusCode := 404\<rparr>\<rparr> ''gone'' 404
     \<in> set (snd (serve ex_cfg [Fn 1 Next, ViewStep not_found_view, Fn 2 Next] ex_ctx))"
proof -
  have l: "(1::nat) < length [Fn 1 Next, ViewStep failing_view, Fn 2 Next]"
    "(1::nat) < length [Fn 1 Next, ViewStep not_found_view, Fn 2 Next]"
    by simp_all
  have cur: "statusCode (fctx (left_ctx [Fn 1 Next, ViewStep failing_view, Fn 2 Next]
      (AcquireRequestCtx ex_ctx) 1)) = 200"
    "statusCode (fctx (left_ctx [Fn 1 Next, ViewStep not_found_view, Fn 2 Next]
      (AcquireRequestCtx ex_ctx) 1)) = 404"
    unfolding ex_run_error(3) ex_run_not_found(3) by (simp_all add: ex_ctx_def)
  have given:
    "statusCode (fst (serve ex_cfg [Fn 1 Next, ViewStep failing_view, Fn 2 Next] ex_ctx)) = 500"
    "statusCode (fst (serve ex_cfg [Fn 1 Next, ViewStep not_found_view, Fn 2 Next] ex_ctx)) = 404"
    unfolding ex_response_error ex_response_not_found by simp_all
  have called:
    "ErrorView \<lparr>next = False, skipView = False, fctx = ex_ctx\<rparr> ''boom'' 500
       \<in> set (snd (serve ex_cfg [Fn 1 Next, ViewStep failing_view, Fn 2 Next] ex_ctx))"
    "ErrorView \<lparr>next = False, skipView = False, fctx = ex_ctx\<lparr>statusCode := 404\<rparr>\<rparr> ''gone'' 404
       \<in> set (snd (serve ex_cfg [Fn 1 Next, ViewStep not_found_view, Fn 2 Next] ex_ctx))"
    unfolding ex_trace_error ex_trace_not_found by simp_all
  from C3_error_status [OF l(1) ex_run_error(1,2), of ex_cfg]
    C3_error_status [OF l(2) ex_run_not_found(1,2), of ex_cfg]
    l ex_run_error(1,2) ex_run_not_found(2) cur given called
  show ?thesis by blast
qed

text \<open>
  Claim C7. For every request served by a built handler, a context wrapper is taken
  from the pool exactly once, before the chain runs, and given back exactly once, after
  the chain has finished, whether the chain ended with an error or not. The trace
  starts with the one \<open>Acquire\<close>, of the wrapper that \<^verbatim>\<open>AcquireRequestCtx\<close> hands out
  for the request, and ends with the one \<open>Release\<close>, of the wrapper the chain ended
  with, as \<^verbatim>\<open>ReleaseRequestCtx\<close> leaves it; the response is this wrapper's. In between
  the chain runs from the wrapper handed out: the calls in between are those of the
  elements that control reaches. The wrapper given back is the one the last element
  left when the chain ran to its end, the one the error view made when an element
  returned an error, and the one an element left that kept control.
\<close>

theorem C7_acquire_release_once:
  "\<exists>mid aF.
     snd (serve cf chain c) =
       Acquire (AcquireRequestCtx c) # mid @ [Release (ReleaseRequestCtx aF)] \<and>
     filter is_pool (snd (serve cf chain c)) =
       [Acquire (AcquireRequestCtx c), Release (ReleaseRequestCtx aF)] \<and>
     fst (serve cf chain c) = fctx (ReleaseRequestCtx aF) \<and>
     (\<forall>j x b. Ran j x b \<in> set mid \<longleftrightarrow>
        j < length chain \<and> reaches chain (AcquireRequestCtx c) j \<and>
        x = returned chain (AcquireRequestCtx c) j \<and>
        b = next (left_ctx chain (AcquireRequestCtx c) j)) \<and>
     (reaches chain (AcquireRequestCtx c) (length chain) \<longrightarrow>
        aF = ctx_at chain (AcquireRequestCtx c) (length chain) \<and> errs mid = []) \<and>
     (\<forall>i e. i < length chain \<and> reaches chain (AcquireRequestCtx c) i \<and>
        returned chain (AcquireRequestCtx c) i = Some e \<longrightarrow>
        aF = errorView cf (left_ctx chain (AcquireRequestCtx c) i) e
               (if statusCode (fctx (left_ctx chain (AcquireRequestCtx c) i)) = 200 then 500
                else statusCode (fctx (left_ctx chain (AcquireRequestCtx c) i))) \<and>
        errs mid =
          [ErrorView (left_ctx chain (AcquireRequestCtx c) i) e
             (if statusCode (fctx (left_ctx chain (AcquireRequestCtx c) i)) = 200 then 500
              else statusCode (fctx (left_ctx chain (AcquireRequestCtx c) i)))]) \<and>
     (\<forall>i. i < length chain \<and> reaches chain (AcquireRequestCtx c) i \<and>
        returned chain (AcquireRequestCtx c) i = None \<and>
        \<not> next (left_ctx chain (AcquireRequestCtx c) i) \<longrightarrow>
        aF = left_ctx chain (AcquireRequestCtx c) i \<and> errs mid = [])"
proof -
  let ?a = "AcquireRequestCtx c"
  let ?mid = "snd (loop cf chain 0 ?a)" and ?aF = "fst (loop cf chain 0 ?a)"
  have t: "snd (serve cf chain c) = Acquire ?a # ?mid @ [Release (ReleaseRequestCtx ?aF)]"
    by (rule serve_trace)
  have p: "filter is_pool (snd (serve cf chain c)) = [Acquire ?a, Release (ReleaseRequestCtx ?aF)]"
    unfolding t by (simp add: loop_no_pool)
  have f: "fst (serve cf chain c) = fctx (ReleaseRequestCtx ?aF)"
    by (rule serve_result)
  have r: "\<forall>j x b. Ran j x b \<in> set ?mid \<longleftrightarrow>
        j < length chain \<and> reaches chain ?a j \<and>
        x = returned chain ?a j \<and> b = next (left_ctx chain ?a j)"
    using loop_ran [of chain ?a 0 _ _ _ cf] by simp
  have ok: "reaches chain ?a (length chain) \<longrightarrow>
        ?aF = ctx_at chain ?a (length chain) \<and> errs ?mid = []"
    using loop_ends_complete [of chain ?a cf] by blast
  have er: "\<forall>i e. i < length chain \<and> reaches chain ?a i \<and> returned chain ?a i = Some e \<longrightarrow>
        ?aF = errorView cf (left_ctx chain ?a i) e
               (if statusCode (fctx (left_ctx chain ?a i)) = 200 then 500
                else statusCode (fctx (left_ctx chain ?a i))) \<and>
        errs ?mid =
          [ErrorView (left_ctx chain ?a i) e
             (if statusCode (fctx (left_ctx chain ?a i)) = 200 then 500
              else statusCode (fctx (left_ctx chain ?a i)))]"
    using loop_ends_error [of _ chain ?a _ cf] by blast
  have ha: "\<forall>i. i < length chain \<and> reaches chain ?a i \<and> returned chain ?a i = None \<and>
        \<not> next (left_ctx chain ?a i) \<longrightarrow> ?aF = left_ctx chain ?a i \<and> errs ?mid = []"
    using loop_ends_halt [of _ chain ?a cf] by blast
  show ?thesis
    by (rule exI [of _ ?mid], rule exI [of _ ?aF]) (use t p f r ok er ha in blast)
qed

theorem C7_acquire_release_once_witness:
  "reaches [Fn 1 Next, ViewStep emptyView, Fn 2 Next] (AcquireRequestCtx ex_ctx)
     (length [Fn 1 Next, ViewStep emptyView, Fn 2 Next]) \<and>
   snd (serve ex_cfg [Fn 1 Next, ViewStep emptyView, Fn 2 Next] ex_ctx) =
     [Acquire \<lparr>next = False, skipView = False, fctx = ex_ctx\<rparr>,
      Ran 0 None True, Ran 1 None True, Ran 2 None True,
      Release \<lparr>next = False, skipView = False, fctx = ex_ctx\<rparr>] \<and>
   (1::nat) < length [Fn 1 Next, ViewStep failing_view, Fn 2 Next] \<and>
   reaches [Fn 1 Next, ViewStep failing_view, Fn 2 Next] (AcquireRequestCtx ex_ctx) 1 \<and>
   returned [Fn 1 Next, ViewStep failing_view, Fn 2 Next] (AcquireRequestCtx ex_ctx) 1 =
     Some ''boom'' \<and>
   filter is_pool (snd (serve ex_cfg [Fn 1 Next, ViewStep failing_view, Fn 2 Next] ex_ctx)) =
     [Acquire \<lparr>next = False, skipView = False, fctx = ex_ctx\<rparr>,
      Release \<lparr>next = False, skipView = False,
        fctx = ex_ctx\<lparr>statusCode := 500, respHeader := [], respBody := ''boom''\<rparr>\<rparr>]"
proof -
  have len: "length [Fn 1 Next, ViewStep emptyView, Fn 2 Next] = 3"
    by simp
  have ok: "reaches [Fn 1 Next, ViewStep emptyView, Fn 2 Next] (AcquireRequestCtx ex_ctx)
     (length [Fn 1 Next, ViewStep emptyView, Fn 2 Next])"
    unfolding len by (rule ex_run_ok(1))
  have l: "(1::nat) < length [Fn 1 Next, ViewStep failing_view, Fn 2 Next]"
    by simp
  have pool: "filter is_pool (snd (serve ex_cfg [Fn 1 Next, ViewStep failing_view, Fn 2 Next] ex_ctx)) =
     [Acquire \<lparr>next = False, skipView = False, fctx = ex_ctx\<rparr>,
      Release \<lparr>next = False, skipView = False,
        fctx = ex_ctx\<lparr>statusCode := 500, respHeader := [], respBody := ''boom''\<rparr>\<rparr>]"
    unfolding ex_trace_error by simp
  from C7_acquire_release_once [of ex_cfg "[Fn 1 Next, ViewStep emptyView, Fn 2 Next]" ex_ctx]
    C7_acquire_release_once [of ex_cfg "[Fn 1 Next, ViewStep failing_view, Fn 2 Next]" ex_ctx]
    ok l ex_run_error(1,2) ex_trace_ok pool
  show ?thesis by blast
qed

text \<open>
  Claim C8. An element of the chain runs only if every element before it returned nil
  and had called \<^verbatim>\<open>Next\<close> (the flag was set when it returned); and if an element
  returns nil without having called \<^verbatim>\<open>Next\<close>, no later element runs (the view among
  them, when it comes later) and the error view is not called. The flag is clear before
  each element: a middleware that leaves the flag as it is, is found with the flag
  clear when it returns, whatever the elements before it did.
\<close>

theorem C8_next_gates_chain:
  "(Ran i x b \<in> set (snd (serve cf chain c)) \<and> j < i \<longrightarrow>
      Ran j None True \<in> set (snd (serve cf chain c)) \<and>
      (\<forall>y d. Ran j y d \<in> set (snd (serve cf chain c)) \<longrightarrow> y = None \<and> d)) \<and>
   (Ran i None False \<in> set (snd (serve cf chain c)) \<longrightarrow>
      (\<forall>j y d. i < j \<longrightarrow> Ran j y d \<notin> set (snd (serve cf chain c))) \<and>
      errs (snd (serve cf chain c)) = []) \<and>
   (Ran i x b \<in> set (snd (serve cf chain c)) \<and> chain ! i = Fn p f \<and>
      (\<forall>a. next (snd (f a)) = next a) \<longrightarrow> \<not> b)"
proof -
  have flag: "Ran i x b \<in> set (snd (serve cf chain c)) \<and> chain ! i = Fn p f \<and>
      (\<forall>a. next (snd (f a)) = next a) \<longrightarrow> \<not> b"
    using serve_flag [of i x b cf chain c p f] by blast
  have seq: "(Ran i x b \<in> set (snd (serve cf chain c)) \<and> j < i \<longrightarrow>
      Ran j None True \<in> set (snd (serve cf chain c)) \<and>
      (\<forall>y d. Ran j y d \<in> set (snd (serve cf chain c)) \<longrightarrow> y = None \<and> d)) \<and>
   (Ran i None False \<in> set (snd (serve cf chain c)) \<longrightarrow>
      (\<forall>j y d. i < j \<longrightarrow> Ran j y d \<notin> set (snd (serve cf chain c))) \<and>
      errs (snd (serve cf chain c)) = [])"
    using serve_shape [of chain cf c]
  proof (cases rule: shape_cases)
    case all
    then show ?thesis by auto
  next
    case (stop k)
    then show ?thesis by auto
  next
    case (err k e' b' x')
    then show ?thesis by auto
  qed
  show ?thesis
    by (rule conjI [OF conjunct1 [OF seq] conjI [OF conjunct2 [OF seq] flag]])
qed

theorem C8_next_gates_chain_witness:
  "Ran 1 None False
     \<in> set (snd (serve ex_cfg [Fn 1 Next, Fn 2 silent, ViewStep emptyView, Fn 3 Next] ex_ctx)) \<and>
   (0::nat) < 1 \<and>
   Ran 0 None True
     \<in> set (snd (serve ex_cfg [Fn 1 Next, Fn 2 silent, ViewStep emptyView, Fn 3 Next] ex_ctx)) \<and>
   Ran 2 None True
     \<notin> set (snd (serve ex_cfg [Fn 1 Next, Fn 2 silent, ViewStep emptyView, Fn 3 Next] ex_ctx)) \<and>
   errs (snd (serve ex_cfg [Fn 1 Next, Fn 2 silent, ViewStep emptyView, Fn 3 Next] ex_ctx)) = [] \<and>
   [Fn 1 Next, Fn 2 silent, ViewStep emptyView, Fn 3 Next] ! 1 = Fn 2 silent \<and>
   (\<forall>a. next (snd (silent a)) = next a)"
proof -
  have h: "Ran 1 None False
     \<in> set (snd (serve ex_cfg [Fn 1 Next, Fn 2 silent, ViewStep emptyView, Fn 3 Next] ex_ctx))"
    unfolding ex_trace_silent by simp
  have s: "[Fn 1 Next, Fn 2 silent, ViewStep emptyView, Fn 3 Next] ! 1 = Fn 2 silent"
    "\<forall>a. next (snd (silent a)) = next a"
    by (simp_all add: silent_def)
  from C8_next_gates_chain
    [of 1 None False ex_cfg "[Fn 1 Next, Fn 2 silent, ViewStep emptyView, Fn 3 Next]" ex_ctx 0
        2 silent]
    h s
  show ?thesis unfolding ex_trace_silent by simp
qed

section \<open>Claims about registering middlewares\<close>

lemma middlewares_Middlewares_set [simp]: "middlewares (Middlewares_set r m) = m"
  by (cases r) simp

lemma register_foldl:
  "middlewares (foldl register r cs) =
     \<lparr>Before = Before (middlewares r) @ concat (map before_args cs),
      After = After (middlewares r) @ concat (map after_args cs),
      Skip = Skip (middlewares r) @ concat (map skip_args cs)\<rparr>"
proof (induction cs arbitrary: r)
  case Nil
  show ?case by simp
next
  case (Cons c cs)
  show ?case
    by (cases c) (simp_all add: Cons.IH UseBefore_def UseAfter_def SkipMiddlewares_def)
qed

text \<open>
  Claim C6. \<^verbatim>\<open>UseBefore\<close> (\<^verbatim>\<open>UseAfter\<close>, \<^verbatim>\<open>SkipMiddlewares\<close>) appends its arguments, in
  the order given, to the end of the router's before (after, skip) list and leaves the
  middlewares registered earlier as they are; so after any sequence of such calls each
  list is the list before the calls followed by the arguments of its calls, in the
  order of the calls.
\<close>

theorem C6_registration_appends:
  "middlewares (UseBefore r fns) =
     (middlewares r)\<lparr>Before := Before (middlewares r) @ fns\<rparr> \<and>
   middlewares (UseAfter r fns) =
     (middlewares r)\<lparr>After := After (middlewares r) @ fns\<rparr> \<and>
   middlewares (SkipMiddlewares r fns) =
     (middlewares r)\<lparr>Skip := Skip (middlewares r) @ fns\<rparr> \<and>
   Before (middlewares (foldl register r cs)) =
     Before (middlewares r) @ concat (map before_args cs) \<and>
   After (middlewares (foldl register r cs)) =
     After (middlewares r) @ concat (map after_args cs) \<and>
   Skip (middlewares (foldl register r cs)) =
     Skip (middlewares r) @ concat (map skip_args cs)"
  by (simp add: UseBefore_def UseAfter_def SkipMiddlewares_def register_foldl)

section \<open>Claims about building the chain\<close>

lemma isEqual_refl [simp]: "isEqual m m"
  by (cases m) simp_all

lemma isEqual_sym: "isEqual a b \<longleftrightarrow> isEqual b a"
  by (cases a; cases b) auto

lemma appendMiddlewares_no_skip [simp]: "appendMiddlewares [] src [] = src"
  by (simp add: appendMiddlewares_def middlewaresInclude_def)

lemma appendMiddlewares_absent:
  "s \<in> set skip \<Longrightarrow> x \<in> set (appendMiddlewares [] src skip) \<Longrightarrow> \<not> isEqual s x"
  by (auto simp: appendMiddlewares_def middlewaresInclude_def list_ex_iff)

text \<open>
  What \<^verbatim>\<open>buildMiddlewares\<close> returns, in one equation: the recursion through the parents
  collects the lists, the server's router adds the debug middleware and filters.
\<close>

lemma buildMiddlewares_eq:
  "buildMiddlewares r m =
     \<lparr>Before = appendMiddlewares []
         ((if debug (cfg (root r)) then [DebugMiddleware] else []) @
          concat (map (Before \<circ> middlewares) (lineage r)) @ Before m)
         (Skip m @ concat (map (Skip \<circ> middlewares) (rev (lineage r)))),
      After = appendMiddlewares []
         (After m @ concat (map (After \<circ> middlewares) (rev (lineage r))))
         (Skip m @ concat (map (Skip \<circ> middlewares) (rev (lineage r)))),
      Skip = Skip m @ concat (map (Skip \<circ> middlewares) (rev (lineage r)))\<rparr>"
proof (induction r m rule: buildMiddlewares.induct)
  case (1 par pre ms mut hopt copt c m)
  show ?case
  proof (cases par)
    case None
    then show ?thesis by (simp add: Let_def)
  next
    case (Some p)
    let ?m2 = "\<lparr>Before = Before ms @ Before m, After = After m @ After ms, Skip = Skip m @ Skip ms\<rparr>"
    have "buildMiddlewares (Router par pre ms mut hopt copt c) m = buildMiddlewares p ?m2"
      using Some by (simp add: Let_def)
    also note "1.IH" [OF refl Some]
    finally show ?thesis using Some by simp
  qed
qed

lemma handler_chain_eq:
  "handler_chain r fn middle =
     Before (buildMiddlewares r middle) @ [ViewStep fn] @ After (buildMiddlewares r middle)"
  by (simp add: handler_chain_def Let_def)

lemma loop_all_pass:
  "(\<And>j. i \<le> j \<Longrightarrow> j < length chain \<Longrightarrow> passes (chain ! j)) \<Longrightarrow>
   rans (snd (loop cf chain i a)) = passed i (length chain)"
proof (induction cf chain i a rule: loop.induct)
  case (1 cf chain i actx)
  show ?case
  proof (cases "i < length chain")
    case False
    then show ?thesis by (simp add: loop_done passed_def)
  next
    case lt: True
    obtain r a1 logged where c: "call (chain ! i) actx = ((r, a1), logged)"
      by (metis prod.exhaust)
    from "1.prems" [of i] lt c have r: "r = None" and n: "next a1"
      by (auto simp: passes_def dest: spec [of _ actx])
    have lg: "rans logged = []"
      using call_rans [of "chain ! i" actx] c by simp
    have "rans (snd (loop cf chain (i + 1) (a1\<lparr>next := False\<rparr>))) = passed (i + 1) (length chain)"
      using "1.IH" [of "(r, a1)" logged r a1] lt c r n "1.prems" by simp
    with lt c r n lg show ?thesis by (simp add: loop_pass passed_step)
  qed
qed

lemma ran_index_passed: "map ran_index (passed i k) = [i..<k]"
  by (simp add: passed_def comp_def map_idI)

lemma shape_indices:
  assumes "shape 0 n tr"
  shows "\<exists>k. k \<le> n \<and> map ran_index (rans tr) = [0..<k]"
proof -
  from assms consider
      (a) "rans tr = passed 0 n"
    | (b) k where "k < n" "rans tr = passed 0 k @ [Ran k None False]"
    | (c) k e b where "k < n" "rans tr = passed 0 k @ [Ran k (Some e) b]"
    unfolding shape_def by blast
  then show ?thesis
  proof cases
    case a
    then have "map ran_index (rans tr) = [0..<n]" by (simp add: ran_index_passed)
    then show ?thesis by blast
  next
    case b
    then have "map ran_index (rans tr) = [0..<Suc k]" by (simp add: ran_index_passed)
    with b(1) show ?thesis by (metis Suc_leI)
  next
    case c
    then have "map ran_index (rans tr) = [0..<Suc k]" by (simp add: ran_index_passed)
    with c(1) show ?thesis by (metis Suc_leI)
  qed
qed

lemma serve_all_pass:
  assumes "\<forall>m\<in>set chain. passes m"
  shows "map ran_index (rans (snd (serve cf chain c))) = [0..<length chain]"
proof -
  have "rans (snd (loop cf chain 0 (AcquireRequestCtx c))) = passed 0 (length chain)"
    using assms by (intro loop_all_pass) simp
  then show ?thesis by (simp add: serve_trace ran_index_passed)
qed

lemma passes_Fn_Next [simp]: "passes (Fn p Next)"
  by (simp add: passes_def Next_def)

lemma passes_emptyView [simp]: "passes (ViewStep emptyView)"
  by (simp add: passes_def Next_def emptyView_def)

lemma passes_mark [simp]: "passes (Fn p (mark s))" "passes (ViewStep (mark_view s))"
  by (simp_all add: passes_def Next_def mark_def mark_view_def)

lemma passes_reaches:
  assumes "\<forall>m\<in>set chain. passes m" "j \<le> length chain"
  shows "reaches chain a j"
  unfolding reaches_iff
proof (intro allI impI)
  fix l assume "l < j"
  with assms have "passes (chain ! l)" by simp
  then show "returned chain a l = None \<and> next (left_ctx chain a l)"
    by (simp add: passes_def returned_def left_ctx_def)
qed

text \<open>The chains of the examples.\<close>

lemma ex_chain_marked:
  "handler_chain ex_mgroup (mark_view ''v'') ex_mfilters =
     [Fn 1 (mark ''1''), Fn 2 (mark ''2''), Fn 3 (mark ''3''), ViewStep (mark_view ''v''),
      Fn 4 (mark ''4''), Fn 5 (mark ''5''), Fn 6 (mark ''6'')]"
  by (simp add: handler_chain_def Let_def ex_mgroup_def ex_mroot_def ex_mfilters_def ex_cfg_def
      UseBefore_def UseAfter_def NewGroupPath_def newRouter_def)

lemma ex_cfg_marked: "cfg ex_mgroup = ex_cfg"
  by (simp add: ex_mgroup_def ex_mroot_def UseBefore_def UseAfter_def NewGroupPath_def
      newRouter_def)

lemma ex_response_marked:
  "fst (serve ex_cfg
     [Fn 1 (mark ''1''), Fn 2 (mark ''2''), Fn 3 (mark ''3''), ViewStep (mark_view ''v''),
      Fn 4 (mark ''4''), Fn 5 (mark ''5''), Fn 6 (mark ''6'')] ex_ctx) =
   ex_ctx\<lparr>respBody := ''123v456''\<rparr>"
  by (simp add: serve_def Let_def loop.simps Next_def AcquireRequestCtx_def ReleaseRequestCtx_def
      ex_cfg_def ex_ctx_def mark_def mark_view_def)

lemma ex_chain_group:
  "handler_chain ex_group emptyView ex_filters =
     [Fn 1 Next, Fn 2 Next, Fn 3 Next, ViewStep emptyView, Fn 4 Next, Fn 5 Next, Fn 6 Next]"
  by (simp add: handler_chain_def Let_def ex_group_def ex_root_def ex_filters_def ex_cfg_def
      UseBefore_def UseAfter_def NewGroupPath_def newRouter_def)

lemma ex_built_skip:
  "buildMiddlewares ex_group_skip ex_filters_skip =
     \<lparr>Before = [Fn 2 Next, Fn 3 Next], After = [Fn 4 Next, Fn 6 Next],
      Skip = [Fn 5 Next, Fn 1 Next]\<rparr>"
  by (simp add: Let_def ex_group_skip_def ex_group_def ex_root_def ex_filters_skip_def
      ex_cfg_def UseBefore_def UseAfter_def SkipMiddlewares_def NewGroupPath_def newRouter_def
      appendMiddlewares_def middlewaresInclude_def)

lemma ex_chain_skip:
  "handler_chain ex_group_skip emptyView ex_filters_skip =
     [Fn 2 Next, Fn 3 Next, ViewStep emptyView, Fn 4 Next, Fn 6 Next]"
  unfolding handler_chain_eq ex_built_skip by simp

lemma ex_lineage_skip:
  "lineage ex_group_skip = [ex_root, ex_group_skip]"
  by (simp add: ex_group_skip_def ex_group_def ex_root_def
      UseBefore_def UseAfter_def SkipMiddlewares_def NewGroupPath_def newRouter_def)

lemma ex_middlewares_skip:
  "middlewares ex_root = \<lparr>Before = [Fn 1 Next], After = [Fn 6 Next], Skip = []\<rparr>"
  "middlewares ex_group_skip = \<lparr>Before = [Fn 2 Next], After = [Fn 5 Next], Skip = [Fn 1 Next]\<rparr>"
  by (simp_all add: ex_group_skip_def ex_group_def ex_root_def
      UseBefore_def UseAfter_def SkipMiddlewares_def NewGroupPath_def newRouter_def)

lemma ex_chain_debug:
  "handler_chain ex_root_debug emptyView no_filters = [DebugMiddleware, ViewStep emptyView]"
  by (simp add: handler_chain_def Let_def ex_root_debug_def no_filters_def newRouter_def)

lemma ex_lineage_debug:
  "lineage ex_root_debug = [ex_root_debug]"
  "middlewares ex_root_debug = \<lparr>Before = [], After = [], Skip = []\<rparr>"
  by (simp_all add: ex_root_debug_def newRouter_def)

text \<open>
  Claim C1, as stated: the chain built for a route is the before-middlewares of the
  routers above it from the outermost to the innermost, the route's own
  before-middlewares, the view, the route's after-middlewares, and the
  after-middlewares of the routers from the innermost to the outermost. It fails for a
  route below a group that skips a middleware of the server's router, and for a server
  with the debug log on, whose chains start with the log middleware.
\<close>

theorem C1_chain_order_counterexample:
  "handler_chain ex_group_skip emptyView ex_filters_skip \<noteq>
     concat (map (Before \<circ> middlewares) (lineage ex_group_skip)) @ Before ex_filters_skip @
     [ViewStep emptyView] @
     After ex_filters_skip @ concat (map (After \<circ> middlewares) (rev (lineage ex_group_skip))) \<and>
   handler_chain ex_root_debug emptyView no_filters \<noteq>
     concat (map (Before \<circ> middlewares) (lineage ex_root_debug)) @ Before no_filters @
     [ViewStep emptyView] @
     After no_filters @ concat (map (After \<circ> middlewares) (rev (lineage ex_root_debug)))"
  unfolding ex_chain_skip ex_chain_debug ex_lineage_skip ex_lineage_debug
  by (simp add: ex_middlewares_skip ex_lineage_debug ex_filters_skip_def no_filters_def)

text \<open>
  Claim C1, amended. The chain built for a route is, in this order: the log middleware
  when the debug log is on, the before-middlewares of the routers above the route from
  the server's router (outermost) to the route's own group (innermost), the route's
  before-middlewares, all of these without the middlewares on a skip list of the route
  or of one of these routers; then the view; then the route's after-middlewares and the
  after-middlewares of the routers from the innermost to the outermost, again without
  the skipped ones. With no skip list and the debug log off this is the chain of the
  claim as stated. A request runs the elements of the chain in this order: element \<open>j\<close>
  is called exactly when every element before it has returned nil and called
  \<^verbatim>\<open>Next\<close>, and it is called with the context that the elements before it have
  made, one after the other, of the request's wrapper. When every element passes, all
  elements run and the response is what the last element leaves.
\<close>

theorem C1_chain_order:
  "handler_chain r fn middle =
     appendMiddlewares []
       ((if debug (cfg (root r)) then [DebugMiddleware] else []) @
        concat (map (Before \<circ> middlewares) (lineage r)) @ Before middle)
       (Skip middle @ concat (map (Skip \<circ> middlewares) (rev (lineage r)))) @
     [ViewStep fn] @
     appendMiddlewares []
       (After middle @ concat (map (After \<circ> middlewares) (rev (lineage r))))
       (Skip middle @ concat (map (Skip \<circ> middlewares) (rev (lineage r)))) \<and>
   (\<not> debug (cfg (root r)) \<and>
    Skip middle @ concat (map (Skip \<circ> middlewares) (rev (lineage r))) = [] \<longrightarrow>
      handler_chain r fn middle =
        concat (map (Before \<circ> middlewares) (lineage r)) @ Before middle @
        [ViewStep fn] @
        After middle @ concat (map (After \<circ> middlewares) (rev (lineage r)))) \<and>
   (\<forall>j x b. Ran j x b \<in> set (snd (serve (cfg r) (handler_chain r fn middle) c)) \<longleftrightarrow>
      j < length (handler_chain r fn middle) \<and>
      reaches (handler_chain r fn middle) (AcquireRequestCtx c) j \<and>
      x = returned (handler_chain r fn middle) (AcquireRequestCtx c) j \<and>
      b = next (left_ctx (handler_chain r fn middle) (AcquireRequestCtx c) j)) \<and>
   (\<exists>k. k \<le> length (handler_chain r fn middle) \<and>
      map ran_index (rans (snd (serve (cfg r) (handler_chain r fn middle) c))) = [0..<k]) \<and>
   ((\<forall>m\<in>set (handler_chain r fn middle). passes m) \<longrightarrow>
      map ran_index (rans (snd (serve (cfg r) (handler_chain r fn middle) c))) =
        [0..<length (handler_chain r fn middle)] \<and>
      fst (serve (cfg r) (handler_chain r fn middle) c) =
        fctx (ReleaseRequestCtx
          (ctx_at (handler_chain r fn middle) (AcquireRequestCtx c)
             (length (handler_chain r fn middle)))))"
proof -
  let ?ch = "handler_chain r fn middle"
  have eq: "?ch =
     appendMiddlewares []
       ((if debug (cfg (root r)) then [DebugMiddleware] else []) @
        concat (map (Before \<circ> middlewares) (lineage r)) @ Before middle)
       (Skip middle @ concat (map (Skip \<circ> middlewares) (rev (lineage r)))) @
     [ViewStep fn] @
     appendMiddlewares []
       (After middle @ concat (map (After \<circ> middlewares) (rev (lineage r))))
       (Skip middle @ concat (map (Skip \<circ> middlewares) (rev (lineage r))))"
    by (subst handler_chain_eq, subst (1 2) buildMiddlewares_eq) simp
  have plain: "\<not> debug (cfg (root r)) \<and>
      Skip middle @ concat (map (Skip \<circ> middlewares) (rev (lineage r))) = [] \<longrightarrow>
      ?ch =
        concat (map (Before \<circ> middlewares) (lineage r)) @ Before middle @
        [ViewStep fn] @
        After middle @ concat (map (After \<circ> middlewares) (rev (lineage r)))"
  proof (intro impI, elim conjE)
    assume d: "\<not> debug (cfg (root r))"
      and k: "Skip middle @ concat (map (Skip \<circ> middlewares) (rev (lineage r))) = []"
    show "?ch =
        concat (map (Before \<circ> middlewares) (lineage r)) @ Before middle @
        [ViewStep fn] @
        After middle @ concat (map (After \<circ> middlewares) (rev (lineage r)))"
      unfolding eq k using d by simp
  qed
  have run: "\<forall>j x b. Ran j x b \<in> set (snd (serve (cfg r) ?ch c)) \<longleftrightarrow>
      j < length ?ch \<and> reaches ?ch (AcquireRequestCtx c) j \<and>
      x = returned ?ch (AcquireRequestCtx c) j \<and>
      b = next (left_ctx ?ch (AcquireRequestCtx c) j)"
    using serve_ran [of _ _ _ "cfg r" ?ch c] by blast
  have order: "\<exists>k. k \<le> length ?ch \<and>
      map ran_index (rans (snd (serve (cfg r) ?ch c))) = [0..<k]"
    by (rule shape_indices [OF serve_shape])
  have full: "(\<forall>m\<in>set ?ch. passes m) \<longrightarrow>
      map ran_index (rans (snd (serve (cfg r) ?ch c))) = [0..<length ?ch] \<and>
      fst (serve (cfg r) ?ch c) =
        fctx (ReleaseRequestCtx (ctx_at ?ch (AcquireRequestCtx c) (length ?ch)))"
  proof
    assume p: "\<forall>m\<in>set ?ch. passes m"
    then have "reaches ?ch (AcquireRequestCtx c) (length ?ch)"
      by (rule passes_reaches) simp
    then have "fst (serve (cfg r) ?ch c) =
        fctx (ReleaseRequestCtx (ctx_at ?ch (AcquireRequestCtx c) (length ?ch)))"
      using loop_ends_complete(1) [of ?ch "AcquireRequestCtx c" "cfg r"]
      by (simp add: serve_result)
    with serve_all_pass [OF p, of "cfg r" c] show
      "map ran_index (rans (snd (serve (cfg r) ?ch c))) = [0..<length ?ch] \<and>
       fst (serve (cfg r) ?ch c) =
         fctx (ReleaseRequestCtx (ctx_at ?ch (AcquireRequestCtx c) (length ?ch)))"
      by blast
  qed
  show ?thesis
    by (rule conjI [OF eq conjI [OF plain conjI [OF run conjI [OF order full]]]])
qed

theorem C1_chain_order_witness:
  "handler_chain ex_mgroup (mark_view ''v'') ex_mfilters =
     [Fn 1 (mark ''1''), Fn 2 (mark ''2''), Fn 3 (mark ''3''), ViewStep (mark_view ''v''),
      Fn 4 (mark ''4''), Fn 5 (mark ''5''), Fn 6 (mark ''6'')] \<and>
   map ran_index (rans (snd (serve (cfg ex_mgroup)
     (handler_chain ex_mgroup (mark_view ''v'') ex_mfilters) ex_ctx))) = [0, 1, 2, 3, 4, 5, 6] \<and>
   respBody (fst (serve (cfg ex_mgroup)
     (handler_chain ex_mgroup (mark_view ''v'') ex_mfilters) ex_ctx)) = ''123v456''"
proof -
  have p: "\<forall>m\<in>set (handler_chain ex_mgroup (mark_view ''v'') ex_mfilters). passes m"
    unfolding ex_chain_marked by simp
  have u: "[0..<length (handler_chain ex_mgroup (mark_view ''v'') ex_mfilters)] =
      [0, 1, 2, 3, 4, 5, 6]"
    unfolding ex_chain_marked by (simp add: upt_rec)
  have b: "respBody (fst (serve (cfg ex_mgroup)
     (handler_chain ex_mgroup (mark_view ''v'') ex_mfilters) ex_ctx)) = ''123v456''"
    unfolding ex_chain_marked ex_cfg_marked ex_response_marked by simp
  from C1_chain_order [of ex_mgroup "mark_view ''v''" ex_mfilters ex_ctx] p
  have "map ran_index (rans (snd (serve (cfg ex_mgroup)
     (handler_chain ex_mgroup (mark_view ''v'') ex_mfilters) ex_ctx))) =
       [0..<length (handler_chain ex_mgroup (mark_view ''v'') ex_mfilters)]"
    by blast
  with u b ex_chain_marked show ?thesis by simp
qed

text \<open>
  Claim C4. In the middlewares built for a route, no middleware of the route's skip list
  or of the skip list of a router above the route is left in the before list or in the
  after list; and the filter comes last: both lists are the filter applied to the
  complete concatenations.
\<close>

theorem C4_skip_filter_last:
  "Before (buildMiddlewares r m) =
     appendMiddlewares []
       ((if debug (cfg (root r)) then [DebugMiddleware] else []) @
        concat (map (Before \<circ> middlewares) (lineage r)) @ Before m)
       (Skip m @ concat (map (Skip \<circ> middlewares) (rev (lineage r)))) \<and>
   After (buildMiddlewares r m) =
     appendMiddlewares []
       (After m @ concat (map (After \<circ> middlewares) (rev (lineage r))))
       (Skip m @ concat (map (Skip \<circ> middlewares) (rev (lineage r)))) \<and>
   (\<forall>g\<in>set (lineage r). \<forall>s\<in>set (Skip m) \<union> set (Skip (middlewares g)).
      s \<notin> set (Before (buildMiddlewares r m)) \<and>
      s \<notin> set (After (buildMiddlewares r m)) \<and>
      \<not> middlewaresInclude (Before (buildMiddlewares r m)) s \<and>
      \<not> middlewaresInclude (After (buildMiddlewares r m)) s)"
proof -
  let ?sk = "Skip m @ concat (map (Skip \<circ> middlewares) (rev (lineage r)))"
  let ?B = "Before (buildMiddlewares r m)" and ?A = "After (buildMiddlewares r m)"
  have B: "?B = appendMiddlewares []
       ((if debug (cfg (root r)) then [DebugMiddleware] else []) @
        concat (map (Before \<circ> middlewares) (lineage r)) @ Before m) ?sk"
    by (subst buildMiddlewares_eq) simp
  have A: "?A = appendMiddlewares []
       (After m @ concat (map (After \<circ> middlewares) (rev (lineage r)))) ?sk"
    by (subst buildMiddlewares_eq) simp
  have gone: "s \<notin> set ?B \<and> s \<notin> set ?A \<and>
      \<not> middlewaresInclude ?B s \<and> \<not> middlewaresInclude ?A s"
    if g: "g \<in> set (lineage r)" and s: "s \<in> set (Skip m) \<union> set (Skip (middlewares g))"
    for g s
  proof -
    from g s have sk: "s \<in> set ?sk" by auto
    have nb: "\<not> isEqual s x" if "x \<in> set ?B" for x
      using that appendMiddlewares_absent [OF sk] unfolding B by blast
    have na: "\<not> isEqual s x" if "x \<in> set ?A" for x
      using that appendMiddlewares_absent [OF sk] unfolding A by blast
    from nb na have "s \<notin> set ?B" "s \<notin> set ?A"
      using isEqual_refl by blast+
    moreover from nb na have "\<not> middlewaresInclude ?B s" "\<not> middlewaresInclude ?A s"
      using isEqual_sym by (auto simp: middlewaresInclude_def list_ex_iff)
    ultimately show ?thesis by blast
  qed
  from B A gone show ?thesis by blast
qed

theorem C4_skip_filter_last_witness:
  "ex_group_skip \<in> set (lineage ex_group_skip) \<and>
   Fn 1 Next \<in> set (Skip ex_filters_skip) \<union> set (Skip (middlewares ex_group_skip)) \<and>
   Fn 1 Next \<notin> set (Before (buildMiddlewares ex_group_skip ex_filters_skip)) \<and>
   Fn 5 Next \<notin> set (After (buildMiddlewares ex_group_skip ex_filters_skip)) \<and>
   Before (buildMiddlewares ex_group_skip ex_filters_skip) = [Fn 2 Next, Fn 3 Next] \<and>
   After (buildMiddlewares ex_group_skip ex_filters_skip) = [Fn 4 Next, Fn 6 Next]"
proof -
  have g: "ex_group_skip \<in> set (lineage ex_group_skip)"
    unfolding ex_lineage_skip by simp
  have s: "Fn 1 Next \<in> set (Skip ex_filters_skip) \<union> set (Skip (middlewares ex_group_skip))"
    unfolding ex_middlewares_skip by simp
  have s': "Fn 5 Next \<in> set (Skip ex_filters_skip) \<union> set (Skip (middlewares ex_group_skip))"
    by (simp add: ex_filters_skip_def)
  from C4_skip_filter_last [of ex_group_skip ex_filters_skip] g s s'
  have "Fn 1 Next \<notin> set (Before (buildMiddlewares ex_group_skip ex_filters_skip))"
    "Fn 5 Next \<notin> set (After (buildMiddlewares ex_group_skip ex_filters_skip))"
    by blast+
  with g s show ?thesis unfolding ex_built_skip by simp
qed

section \<open>Claims about registering paths\<close>


lemma group_prefixes_newRouter [simp]: "group_prefixes (newRouter cf) = []"
  by (simp add: newRouter_def)

lemma group_prefixes_NewGroupPath [simp]:
  "group_prefixes (NewGroupPath r pre) = group_prefixes r @ [pre]"
  by (simp add: NewGroupPath_def)

lemma group_prefixes_register [simp]: "group_prefixes (register r c) = group_prefixes r"
  by (cases r; cases c) (simp_all add: UseBefore_def UseAfter_def SkipMiddlewares_def)





lemma handler_set_routerMutable [simp]: "handler (set_routerMutable r v) fn m = handler r fn m"
  by (cases r) (simp add: handler_def handler_chain_def)

lemma handler_set_customOPTIONS [simp]: "handler (set_customOPTIONS r v) fn m = handler r fn m"
  by (cases r) (simp add: handler_def handler_chain_def)

lemma handleOPTIONS_set [simp]:
  "handleOPTIONS (set_routerMutable r v) = handleOPTIONS r"
  "handleOPTIONS (set_customOPTIONS r w) = handleOPTIONS r"
  by (cases r; simp)+

lemma routerMutable_set [simp]:
  "routerMutable (set_routerMutable r v) = v"
  "routerMutable (set_customOPTIONS r w) = routerMutable r"
  by (cases r; simp)+

lemma mutable_fst [simp]:
  "handlers (fst (mutable fr r v)) = handlers fr"
  "registeredPaths (fst (mutable fr r v)) = registeredPaths fr"
  "treeMutable (fst (mutable fr r v)) = (if v \<noteq> routerMutable r then v else treeMutable fr)"
  by (simp_all add: mutable_def)

lemma mutable_snd [simp]:
  "handler (snd (mutable fr r v)) fn m = handler r fn m"
  "handleOPTIONS (snd (mutable fr r v)) = handleOPTIONS r"
  "routerMutable (snd (mutable fr r v)) = v"
  by (auto simp: mutable_def)


























section \<open>Claims about the OPTIONS view\<close>

lemma sort_Nil_iff: "sort xs = [] \<longleftrightarrow> xs = []" for xs :: "string list"
  using length_sort [of "\<lambda>x. x" xs] by (cases xs) auto

lemma allowed_set:
  "set (map fst (filter (\<lambda>(m, urls). m \<noteq> MethodOptions \<and> u \<in> set urls) paths)) =
     {m. m \<noteq> MethodOptions \<and> (\<exists>urls. (m, urls) \<in> set paths \<and> u \<in> set urls)}"
  by (induction paths) auto

text \<open>The loop of lines 59-65 keeps, in the order of the visit, the methods that qualify.\<close>

lemma allow_fold:
  "foldl (\<lambda>allow (m, urls).
            if m = MethodOptions \<or> \<not> Include urls u then allow else allow @ [m]) acc paths =
   acc @ map fst (filter (\<lambda>(m, urls). m \<noteq> MethodOptions \<and> u \<in> set urls) paths)"
  unfolding Include_def
proof (induction paths arbitrary: acc)
  case Nil
  show ?case by simp
next
  case (Cons p paths)
  obtain m urls where p: "p = (m, urls)" by (cases p)
  show ?case by (simp add: p Cons.IH)
qed

lemma distinct_map_fst_filter:
  "distinct (map fst xs) \<Longrightarrow> distinct (map fst (filter P xs))"
  by (induction xs) auto

lemma allowValue_eq:
  assumes "distinct (map fst paths)"
  shows "\<exists>ms. sorted ms \<and> distinct ms \<and>
           set ms = {m. m \<noteq> MethodOptions \<and> (\<exists>urls. (m, urls) \<in> set paths \<and> u \<in> set urls)} \<and>
           allowValue u paths = (if ms = [] then MethodOptions else Join ms '', '')"
proof -
  define al where
    "al = map fst (filter (\<lambda>(m, urls). m \<noteq> MethodOptions \<and> u \<in> set urls) paths)"
  have d: "distinct al" unfolding al_def using assms by (rule distinct_map_fst_filter)
  have s: "set al = {m. m \<noteq> MethodOptions \<and> (\<exists>urls. (m, urls) \<in> set paths \<and> u \<in> set urls)}"
    unfolding al_def by (rule allowed_set)
  have v: "allowValue u paths = (if al = [] then MethodOptions else Join (sort al) '', '')"
    by (simp add: allowValue_def allow_fold Let_def al_def)
  have "sorted (sort al)" "distinct (sort al)" "set (sort al) = set al"
    using d by simp_all
  with s v sort_Nil_iff [of al] show ?thesis
    by (intro exI [of _ "sort al"]) simp
qed

lemma header_set_sets: "map_of (header_set k v hs) k = Some v"
  by (induction hs) auto

lemma ex_allow:
  "allowValue ''/a'' ex_paths = ''GET, POST''"
  "allowValue ''/c'' ex_paths = ''OPTIONS''"
  by (simp_all add: allowValue_def ex_paths_def Let_def Include_def MethodOptions_def)

text \<open>
  Claim C10. The view that \<^verbatim>\<open>buildOptionsView\<close> returns sets the Allow header of the
  response and then calls the wrapped view. The value of the header is fixed when the
  view is built, from the registered paths: the methods other than OPTIONS under which
  the url is registered, sorted (byte-wise, as strings) and joined by a comma and a
  space; or OPTIONS when there is no such method. The registered paths are a Go map, so
  a method is listed once, whatever the order in which the map is visited.
\<close>

theorem C10_options_allow_header:
  assumes "distinct (map fst paths)"
  shows "\<exists>ms. sorted ms \<and> distinct ms \<and>
           set ms = {m. m \<noteq> MethodOptions \<and> (\<exists>urls. (m, urls) \<in> set paths \<and> u \<in> set urls)} \<and>
           (\<forall>c. buildOptionsView u fn paths c =
              fn (c\<lparr>fctx := (fctx c)\<lparr>respHeader :=
                    header_set HeaderAllow (if ms = [] then MethodOptions else Join ms '', '')
                      (respHeader (fctx c))\<rparr>\<rparr>)) \<and>
           (\<forall>hs. map_of (header_set HeaderAllow
                          (if ms = [] then MethodOptions else Join ms '', '') hs) HeaderAllow =
              Some (if ms = [] then MethodOptions else Join ms '', ''))"
proof -
  from allowValue_eq [OF assms, of u] obtain ms where ms: "sorted ms" "distinct ms"
    "set ms = {m. m \<noteq> MethodOptions \<and> (\<exists>urls. (m, urls) \<in> set paths \<and> u \<in> set urls)}"
    "allowValue u paths = (if ms = [] then MethodOptions else Join ms '', '')"
    by blast
  have "buildOptionsView u fn paths c =
      fn (c\<lparr>fctx := (fctx c)\<lparr>respHeader :=
            header_set HeaderAllow (if ms = [] then MethodOptions else Join ms '', '')
              (respHeader (fctx c))\<rparr>\<rparr>)" for c
    unfolding ms(4) [symmetric] by (simp add: buildOptionsView_def Let_def)
  with ms(1-3) header_set_sets show ?thesis by blast
qed

theorem C10_options_allow_header_witness:
  "distinct (map fst ex_paths) \<and>
   buildOptionsView ''/a'' emptyView ex_paths \<lparr>next = False, skipView = False, fctx = ex_ctx\<rparr> =
     (None, \<lparr>next = False, skipView = False,
             fctx = ex_ctx\<lparr>respHeader := [(''Allow'', ''GET, POST'')]\<rparr>\<rparr>) \<and>
   buildOptionsView ''/c'' emptyView ex_paths \<lparr>next = False, skipView = False, fctx = ex_ctx\<rparr> =
     (None, \<lparr>next = False, skipView = False,
             fctx = ex_ctx\<lparr>respHeader := [(''Allow'', ''OPTIONS'')]\<rparr>\<rparr>)"
proof -
  have d: "distinct (map fst ex_paths)"
    by (simp add: ex_paths_def)
  from C10_options_allow_header [OF d, of "''/a''" emptyView] d show ?thesis
    by (simp add: buildOptionsView_def ex_allow Let_def emptyView_def ex_ctx_def HeaderAllow_def)
qed

end
